theory Spec2Isabelle
  imports Main "HOL-Library.Word"
begin

unbundle bit_operations_syntax

section \<open>The token server of the cobrowse demo (server.js)\<close>

text \<open>
  The development embeds \<^verbatim>\<open>generateToken\<close>, \<^verbatim>\<open>parseBody\<close> and
  \<^verbatim>\<open>handleTokenRequest\<close> of \<^verbatim>\<open>server.js\<close>, together with the library
  functions they call: \<^verbatim>\<open>JSON.stringify\<close>, \<^verbatim>\<open>JSON.parse\<close>,
  \<^verbatim>\<open>Buffer.from(..).toString('base64')\<close> and
  \<^verbatim>\<open>crypto.createHmac('sha256', ..)\<close>.

  Conventions of the model.
  \<^item> A JavaScript string is a \<open>string\<close>: a list of code units below 256 (the Latin-1
    range). Code units from 128 on take two bytes in UTF-8.
  \<^item> A JavaScript number is an \<open>int\<close>: the model covers integer values, which are exact
    for magnitudes below \<open>2 ^ 53\<close>; fractional numbers are outside the model.
  \<^item> A byte is an \<open>8 word\<close>.
  \<^item> Console output is not modelled.
\<close>

type_synonym byte = "8 word"

subsection \<open>JavaScript values\<close>

datatype jsval =
    JUndefined
  | JNull
  | JBool bool
  | JNum int
  | JStr string
  | JArr "jsval list"
  | JObj "(string \<times> jsval) list"

text \<open>
  An object is the list of its properties in enumeration order. A property read takes the
  last binding of the name; every other value has no own property called \<open>role\<close> and the
  like, so the read gives \<open>undefined\<close>. Reading a property of \<open>null\<close> or \<open>undefined\<close>
  throws a TypeError, which is \<open>None\<close> here.
\<close>

fun get_prop :: "jsval \<Rightarrow> string \<Rightarrow> jsval option" where
  "get_prop JNull k = None"
| "get_prop JUndefined k = None"
| "get_prop (JObj ms) k =
     Some (case map_of (rev ms) k of None \<Rightarrow> JUndefined | Some v \<Rightarrow> v)"
| "get_prop v k = Some JUndefined"

text \<open>ToBoolean.\<close>

fun truthy :: "jsval \<Rightarrow> bool" where
  "truthy JUndefined = False"
| "truthy JNull = False"
| "truthy (JBool b) = b"
| "truthy (JNum n) = (n \<noteq> 0)"
| "truthy (JStr s) = (s \<noteq> [])"
| "truthy (JArr xs) = True"
| "truthy (JObj ms) = True"

subsection \<open>Numbers and strings as text\<close>

definition dquote :: char where
  "dquote = CHR 0x22"

definition backslash :: char where
  "backslash = CHR 0x5C"

definition digit_char :: "nat \<Rightarrow> char" where
  "digit_char d = char_of (48 + d)"

fun show_nat :: "nat \<Rightarrow> string" where
  "show_nat n = (if n < 10 then [digit_char n] else show_nat (n div 10) @ [digit_char (n mod 10)])"

declare show_nat.simps [simp del]

text \<open>Number-to-string conversion of an integer, as in a template literal.\<close>

definition show_int :: "int \<Rightarrow> string" where
  "show_int i = (if i < 0 then CHR ''-'' # show_nat (nat (- i)) else show_nat (nat i))"

definition hex_char :: "nat \<Rightarrow> char" where
  "hex_char d = (if d < 10 then char_of (48 + d) else char_of (87 + d))"

text \<open>QuoteJSONString: the escapes that \<^verbatim>\<open>JSON.stringify\<close> writes.\<close>

definition json_escape :: "char \<Rightarrow> string" where
  "json_escape c =
     (if c = dquote then [backslash, dquote]
      else if c = backslash then [backslash, backslash]
      else if c = CHR 0x08 then [backslash, CHR ''b'']
      else if c = CHR 0x0C then [backslash, CHR ''f'']
      else if c = CHR 0x0A then [backslash, CHR ''n'']
      else if c = CHR 0x0D then [backslash, CHR ''r'']
      else if c = CHR 0x09 then [backslash, CHR ''t'']
      else if (of_char c :: nat) < 32
        then [backslash, CHR ''u'', CHR ''0'', CHR ''0'',
              hex_char (of_char c div 16), hex_char (of_char c mod 16)]
      else [c])"

definition json_quote :: "string \<Rightarrow> string" where
  "json_quote s = dquote # concat (map json_escape s) @ [dquote]"

fun join :: "string \<Rightarrow> string list \<Rightarrow> string" where
  "join sep [] = []"
| "join sep [x] = x"
| "join sep (x # y # ys) = x @ sep @ join sep (y # ys)"

subsection \<open>JSON.stringify\<close>

text \<open>
  SerializeJSONProperty without indentation. A property whose value is \<open>undefined\<close> is
  left out of an object; an \<open>undefined\<close> array element is written \<open>null\<close>.
  \<open>ser\<close> is applied to defined values only (its \<open>JUndefined\<close> equation is the array
  case).
\<close>

fun ser :: "jsval \<Rightarrow> string" where
  "ser JUndefined = ''null''"
| "ser JNull = ''null''"
| "ser (JBool b) = (if b then ''true'' else ''false'')"
| "ser (JNum i) = show_int i"
| "ser (JStr s) = json_quote s"
| "ser (JArr xs) = ''['' @ join '','' (map ser xs) @ '']''"
| "ser (JObj ms) =
     ''{'' @ join '',''
        (map (\<lambda>kv. json_quote (fst kv) @ '':'' @ ser (snd kv))
           (filter (\<lambda>kv. snd kv \<noteq> JUndefined) ms)) @ ''}''"

definition JSON_stringify :: "jsval \<Rightarrow> string option" where
  "JSON_stringify v = (if v = JUndefined then None else Some (ser v))"

subsection \<open>Buffer.from(string): UTF-8\<close>

definition utf8_char :: "char \<Rightarrow> byte list" where
  "utf8_char c =
     (let n = (of_char c :: nat)
      in if n < 128 then [of_nat n] else [of_nat (192 + n div 64), of_nat (128 + n mod 64)])"

definition utf8 :: "string \<Rightarrow> byte list" where
  "utf8 s = concat (map utf8_char s)"

subsection \<open>Buffer.toString('base64')\<close>

definition b64_char :: "nat \<Rightarrow> char" where
  "b64_char i =
     (if i < 26 then char_of (65 + i)
      else if i < 52 then char_of (71 + i)
      else if i < 62 then char_of (i - 4)
      else if i = 62 then CHR ''+''
      else CHR ''/'')"

fun base64 :: "byte list \<Rightarrow> string" where
  "base64 [] = []"
| "base64 [a] =
     (let n = unat a * 65536
      in [b64_char (n div 262144), b64_char (n div 4096 mod 64), CHR ''='', CHR ''=''])"
| "base64 [a, b] =
     (let n = unat a * 65536 + unat b * 256
      in [b64_char (n div 262144), b64_char (n div 4096 mod 64),
          b64_char (n div 64 mod 64), CHR ''=''])"
| "base64 (a # b # c # rest) =
     (let n = unat a * 65536 + unat b * 256 + unat c
      in [b64_char (n div 262144), b64_char (n div 4096 mod 64),
          b64_char (n div 64 mod 64), b64_char (n mod 64)] @ base64 rest)"

text \<open>\<^verbatim>\<open>s.replace(/c/g, r)\<close> for a single character \<open>c\<close>.\<close>

definition replace_all :: "char \<Rightarrow> string \<Rightarrow> string \<Rightarrow> string" where
  "replace_all c r s = concat (map (\<lambda>x. if x = c then r else [x]) s)"

subsection \<open>SHA-256 (FIPS 180-4)\<close>

type_synonym w32 = "32 word"

definition sha256_K :: "w32 list" where
  "sha256_K =
    [0x428A2F98, 0x71374491, 0xB5C0FBCF, 0xE9B5DBA5, 0x3956C25B, 0x59F111F1, 0x923F82A4, 0xAB1C5ED5,
     0xD807AA98, 0x12835B01, 0x243185BE, 0x550C7DC3, 0x72BE5D74, 0x80DEB1FE, 0x9BDC06A7, 0xC19BF174,
     0xE49B69C1, 0xEFBE4786, 0x0FC19DC6, 0x240CA1CC, 0x2DE92C6F, 0x4A7484AA, 0x5CB0A9DC, 0x76F988DA,
     0x983E5152, 0xA831C66D, 0xB00327C8, 0xBF597FC7, 0xC6E00BF3, 0xD5A79147, 0x06CA6351, 0x14292967,
     0x27B70A85, 0x2E1B2138, 0x4D2C6DFC, 0x53380D13, 0x650A7354, 0x766A0ABB, 0x81C2C92E, 0x92722C85,
     0xA2BFE8A1, 0xA81A664B, 0xC24B8B70, 0xC76C51A3, 0xD192E819, 0xD6990624, 0xF40E3585, 0x106AA070,
     0x19A4C116, 0x1E376C08, 0x2748774C, 0x34B0BCB5, 0x391C0CB3, 0x4ED8AA4A, 0x5B9CCA4F, 0x682E6FF3,
     0x748F82EE, 0x78A5636F, 0x84C87814, 0x8CC70208, 0x90BEFFFA, 0xA4506CEB, 0xBEF9A3F7, 0xC67178F2]"

definition sha256_H0 :: "w32 list" where
  "sha256_H0 =
    [0x6A09E667, 0xBB67AE85, 0x3C6EF372, 0xA54FF53A, 0x510E527F, 0x9B05688C, 0x1F83D9AB, 0x5BE0CD19]"

definition Ch :: "w32 \<Rightarrow> w32 \<Rightarrow> w32 \<Rightarrow> w32" where
  "Ch x y z = (x AND y) XOR (NOT x AND z)"

definition Maj :: "w32 \<Rightarrow> w32 \<Rightarrow> w32 \<Rightarrow> w32" where
  "Maj x y z = (x AND y) XOR (x AND z) XOR (y AND z)"

definition Sigma0 :: "w32 \<Rightarrow> w32" where
  "Sigma0 x = word_rotr 2 x XOR word_rotr 13 x XOR word_rotr 22 x"

definition Sigma1 :: "w32 \<Rightarrow> w32" where
  "Sigma1 x = word_rotr 6 x XOR word_rotr 11 x XOR word_rotr 25 x"

definition sigma0 :: "w32 \<Rightarrow> w32" where
  "sigma0 x = word_rotr 7 x XOR word_rotr 18 x XOR drop_bit 3 x"

definition sigma1 :: "w32 \<Rightarrow> w32" where
  "sigma1 x = word_rotr 17 x XOR word_rotr 19 x XOR drop_bit 10 x"

definition sha256_pad :: "byte list \<Rightarrow> byte list" where
  "sha256_pad m =
     m @ [0x80] @ replicate ((119 - length m mod 64) mod 64) 0
       @ map (\<lambda>i. of_nat (8 * length m div 256 ^ (7 - i) mod 256)) [0..<8]"

fun be_words :: "byte list \<Rightarrow> w32 list" where
  "be_words (a # b # c # d # rest) =
     (push_bit 24 (ucast a) OR push_bit 16 (ucast b) OR push_bit 8 (ucast c) OR ucast d)
       # be_words rest"
| "be_words rest = []"

fun chunk16 :: "w32 list \<Rightarrow> w32 list list" where
  "chunk16 ws = (if length ws < 16 then [] else take 16 ws # chunk16 (drop 16 ws))"

declare chunk16.simps [simp del]

fun schedule :: "nat \<Rightarrow> w32 list \<Rightarrow> w32 list" where
  "schedule 0 w = w"
| "schedule (Suc n) w =
     (let t = length w
      in schedule n
           (w @ [sigma1 (w ! (t - 2)) + w ! (t - 7) + sigma0 (w ! (t - 15)) + w ! (t - 16)]))"

type_synonym sha_state = "w32 \<times> w32 \<times> w32 \<times> w32 \<times> w32 \<times> w32 \<times> w32 \<times> w32"

fun sha256_round :: "w32 \<times> w32 \<Rightarrow> sha_state \<Rightarrow> sha_state" where
  "sha256_round (k, w) (a, b, c, d, e, f, g, h) =
     (let t1 = h + Sigma1 e + Ch e f g + k + w;
          t2 = Sigma0 a + Maj a b c
      in (t1 + t2, a, b, c, d + t1, e, f, g))"

fun state_of :: "w32 list \<Rightarrow> sha_state" where
  "state_of hs = (hs ! 0, hs ! 1, hs ! 2, hs ! 3, hs ! 4, hs ! 5, hs ! 6, hs ! 7)"

fun list_of_state :: "sha_state \<Rightarrow> w32 list" where
  "list_of_state (a, b, c, d, e, f, g, h) = [a, b, c, d, e, f, g, h]"

definition sha256_compress :: "w32 list \<Rightarrow> w32 list \<Rightarrow> w32 list" where
  "sha256_compress block hs =
     map2 (+) hs
       (list_of_state (fold sha256_round (zip sha256_K (schedule 48 block)) (state_of hs)))"

definition word_bytes :: "w32 \<Rightarrow> byte list" where
  "word_bytes w = [ucast (drop_bit 24 w), ucast (drop_bit 16 w), ucast (drop_bit 8 w), ucast w]"

definition sha256 :: "byte list \<Rightarrow> byte list" where
  "sha256 m =
     concat (map word_bytes (fold sha256_compress (chunk16 (be_words (sha256_pad m))) sha256_H0))"

subsection \<open>HMAC (RFC 2104) with SHA-256\<close>

text \<open>
  The key is brought to the block size of 64 bytes: a longer key is hashed first, and the
  result is filled with zero bytes.
\<close>

definition hmac_key_block :: "byte list \<Rightarrow> byte list" where
  "hmac_key_block key =
     (let k0 = (if 64 < length key then sha256 key else key)
      in k0 @ replicate (64 - length k0) 0)"

definition hmac_sha256 :: "byte list \<Rightarrow> byte list \<Rightarrow> byte list" where
  "hmac_sha256 key msg =
     (let kb = hmac_key_block key
      in sha256 (map (\<lambda>b. b XOR 0x5c) kb @ sha256 (map (\<lambda>b. b XOR 0x36) kb @ msg)))"

subsection \<open>Configuration and clock\<close>

record config =
  SDK_KEY :: string
  SDK_SECRET :: string
  TOKEN_EXPIRY :: int
  ZOOM_DOMAIN :: string

text \<open>\<^verbatim>\<open>process.env.X || d\<close>: an unset or empty variable gives the placeholder.\<close>

definition env_or :: "string option \<Rightarrow> string \<Rightarrow> string" where
  "env_or e d = (case e of None \<Rightarrow> d | Some s \<Rightarrow> if s = [] then d else s)"

definition CONFIG :: "string option \<Rightarrow> string option \<Rightarrow> config" where
  "CONFIG env_key env_secret =
     \<lparr>SDK_KEY = env_or env_key ''YOUR_SDK_KEY_HERE'',
      SDK_SECRET = env_or env_secret ''YOUR_SDK_SECRET_HERE'',
      TOKEN_EXPIRY = 3600,
      ZOOM_DOMAIN = ''us01-zcb.zoom.us''\<rparr>"

text \<open>
  The process state that the token code reads: the system clock. \<open>clock w k\<close> is the
  value, in milliseconds, that the \<open>k\<close>-th call of \<^verbatim>\<open>Date.now()\<close> returns, and
  \<open>reads w\<close> counts the calls made so far. The log lines of the server build their own
  \<^verbatim>\<open>new Date()\<close>; they are console output and do not appear here.
\<close>

record world =
  clock :: "nat \<Rightarrow> int"
  reads :: nat

definition Date_now :: "world \<Rightarrow> int \<times> world" where
  "Date_now w = (clock w (reads w), w\<lparr>reads := Suc (reads w)\<rparr>)"

subsection \<open>generateToken\<close>

datatype js_error = TypeError_hmac_key | TypeError_property_of_null

definition base64url :: "(string \<times> jsval) list \<Rightarrow> string" where
  "base64url obj =
     (let json = ser (JObj obj);
          base64 = base64 (utf8 json)
      in replace_all (CHR ''='') []
           (replace_all (CHR ''/'') ''_'' (replace_all (CHR ''+'') ''-'' base64)))"

text \<open>
  \<^verbatim>\<open>crypto.createHmac('sha256', key)\<close> throws a TypeError unless the key is a string
  (or a buffer, which no caller passes); a string key and the string message are taken
  as their UTF-8 bytes.
\<close>

definition hmac_digest_base64 :: "jsval \<Rightarrow> string \<Rightarrow> js_error + string" where
  "hmac_digest_base64 key msg =
     (case key of
        JStr k \<Rightarrow> Inr (base64 (hmac_sha256 (utf8 k) (utf8 msg)))
      | _ \<Rightarrow> Inl TypeError_hmac_key)"

definition header :: "(string \<times> jsval) list" where
  "header = [(''alg'', JStr ''HS256''), (''typ'', JStr ''JWT'')]"

definition payload :: "jsval \<Rightarrow> jsval \<Rightarrow> int \<Rightarrow> int \<Rightarrow> string \<Rightarrow> (string \<times> jsval) list" where
  "payload sdkKey role now exp uniqueId =
     [(''app_key'', sdkKey),
      (''role_type'', role),
      (''iat'', JNum now),
      (''exp'', JNum exp),
      (''user_id'', JStr uniqueId),
      (''user_name'', JStr uniqueId),
      (''enable_byop'', JNum 1)]"

text \<open>
  The third parameter has the default value 1, which JavaScript uses when the argument is
  missing or \<open>undefined\<close>. The clock is read twice: for \<open>now\<close> and for \<open>uniqueId\<close>.
\<close>

definition generateToken ::
  "config \<Rightarrow> jsval \<Rightarrow> jsval \<Rightarrow> jsval \<Rightarrow> world \<Rightarrow> (js_error + string) \<times> world" where
  "generateToken cfg sdkKey sdkSecret role_arg w =
     (let role = (if role_arg = JUndefined then JNum 1 else role_arg);
          (t1, w1) = Date_now w;
          now = t1 div 1000;
          exp = now + TOKEN_EXPIRY cfg;
          (t2, w2) = Date_now w1;
          uniqueId = ''user_'' @ show_int t2;
          headerEncoded = base64url header;
          payloadEncoded = base64url (payload sdkKey role now exp uniqueId);
          signatureInput = headerEncoded @ ''.'' @ payloadEncoded
      in case hmac_digest_base64 sdkSecret signatureInput of
           Inl e \<Rightarrow> (Inl e, w2)
         | Inr digest \<Rightarrow>
             (let signature =
                    replace_all (CHR ''='') []
                      (replace_all (CHR ''/'') ''_'' (replace_all (CHR ''+'') ''-'' digest))
              in (Inr (headerEncoded @ ''.'' @ payloadEncoded @ ''.'' @ signature), w2)))"

subsection \<open>JSON.parse\<close>

text \<open>
  A recursive-descent parser of the JSON grammar (ECMA-404). Numbers are integer literals;
  a literal with a fraction or an exponent denotes a floating-point value and is outside
  the model. An escape \<^verbatim>\<open>\uXXXX\<close> is read when it names a code unit below 256.
  The recursion is bounded by fuel; \<open>JSON_parse\<close> gives two units of fuel for every
  character, and each level of nesting uses two units and at least one character.
\<close>

definition is_ws :: "char \<Rightarrow> bool" where
  "is_ws c = (c = CHR '' '' \<or> c = CHR 0x09 \<or> c = CHR 0x0A \<or> c = CHR 0x0D)"

definition skip_ws :: "string \<Rightarrow> string" where
  "skip_ws s = dropWhile is_ws s"

definition is_digit :: "char \<Rightarrow> bool" where
  "is_digit c = (48 \<le> (of_char c :: nat) \<and> (of_char c :: nat) \<le> 57)"

definition read_nat :: "string \<Rightarrow> nat" where
  "read_nat ds = foldl (\<lambda>a c. 10 * a + (of_char c - 48)) 0 ds"

definition hex_val :: "char \<Rightarrow> nat option" where
  "hex_val c =
     (let n = (of_char c :: nat)
      in if 48 \<le> n \<and> n \<le> 57 then Some (n - 48)
         else if 97 \<le> n \<and> n \<le> 102 then Some (n - 87)
         else if 65 \<le> n \<and> n \<le> 70 then Some (n - 55)
         else None)"

definition hex4 :: "char \<Rightarrow> char \<Rightarrow> char \<Rightarrow> char \<Rightarrow> nat option" where
  "hex4 a b c d =
     (case (hex_val a, hex_val b, hex_val c, hex_val d) of
        (Some x, Some y, Some z, Some u) \<Rightarrow> Some (((x * 16 + y) * 16 + z) * 16 + u)
      | _ \<Rightarrow> None)"

definition unescape :: "char \<Rightarrow> char option" where
  "unescape e =
     (if e = dquote then Some dquote
      else if e = backslash then Some backslash
      else if e = CHR ''/'' then Some (CHR ''/'')
      else if e = CHR ''b'' then Some (CHR 0x08)
      else if e = CHR ''f'' then Some (CHR 0x0C)
      else if e = CHR ''n'' then Some (CHR 0x0A)
      else if e = CHR ''r'' then Some (CHR 0x0D)
      else if e = CHR ''t'' then Some (CHR 0x09)
      else None)"

definition cons_result :: "'a \<Rightarrow> ('a list \<times> string) option \<Rightarrow> ('a list \<times> string) option" where
  "cons_result x r = (case r of None \<Rightarrow> None | Some (xs, rest) \<Rightarrow> Some (x # xs, rest))"

text \<open>The characters of a string literal after its opening quote, up to the closing one.\<close>

fun parse_chars :: "string \<Rightarrow> (string \<times> string) option" where
  "parse_chars [] = None"
| "parse_chars (c # cs) =
     (if c = dquote then Some ([], cs)
      else if c = backslash then
        (case cs of
           [] \<Rightarrow> None
         | e # cs' \<Rightarrow>
             if e = CHR ''u'' then
               (case cs' of
                  h1 # h2 # h3 # h4 # rest \<Rightarrow>
                    (case hex4 h1 h2 h3 h4 of
                       None \<Rightarrow> None
                     | Some n \<Rightarrow> if n < 256 then cons_result (char_of n) (parse_chars rest) else None)
                | _ \<Rightarrow> None)
             else
               (case unescape e of
                  None \<Rightarrow> None
                | Some x \<Rightarrow> cons_result x (parse_chars cs')))
      else if (of_char c :: nat) < 32 then None
      else cons_result c (parse_chars cs))"

definition parse_number :: "string \<Rightarrow> (jsval \<times> string) option" where
  "parse_number s =
     (let neg = (s \<noteq> [] \<and> hd s = CHR ''-'');
          s1 = (if neg then tl s else s);
          ds = takeWhile is_digit s1;
          rest = dropWhile is_digit s1
      in if ds = [] \<or> (1 < length ds \<and> hd ds = CHR ''0'') then None
         else if rest \<noteq> [] \<and> hd rest \<in> {CHR ''.'', CHR ''e'', CHR ''E''} then None
         else Some (JNum (if neg then - int (read_nat ds) else int (read_nat ds)), rest))"

definition strip_prefix :: "string \<Rightarrow> string \<Rightarrow> string option" where
  "strip_prefix p s = (if take (length p) s = p then Some (drop (length p) s) else None)"

text \<open>
  CreateDataProperty in the order of the text: a repeated name keeps its first position and
  takes the last value. Property enumeration then lists array indices first, in ascending
  order.
\<close>

fun set_prop :: "(string \<times> jsval) list \<Rightarrow> string \<Rightarrow> jsval \<Rightarrow> (string \<times> jsval) list" where
  "set_prop [] k v = [(k, v)]"
| "set_prop ((k', v') # ms) k v = (if k' = k then (k, v) # ms else (k', v') # set_prop ms k v)"

definition is_index :: "string \<Rightarrow> bool" where
  "is_index k =
     (k \<noteq> [] \<and> list_all is_digit k \<and> (if hd k = CHR ''0'' then length k = 1 else True)
        \<and> read_nat k < 4294967295)"

definition make_object :: "(string \<times> jsval) list \<Rightarrow> jsval" where
  "make_object members =
     (let ps = foldl (\<lambda>ms kv. set_prop ms (fst kv) (snd kv)) [] members
      in JObj (sort_key (\<lambda>kv. read_nat (fst kv)) (filter (\<lambda>kv. is_index (fst kv)) ps)
                 @ filter (\<lambda>kv. \<not> is_index (fst kv)) ps))"

fun parse_value :: "nat \<Rightarrow> string \<Rightarrow> (jsval \<times> string) option"
  and parse_elements :: "nat \<Rightarrow> string \<Rightarrow> (jsval list \<times> string) option"
  and parse_members :: "nat \<Rightarrow> string \<Rightarrow> ((string \<times> jsval) list \<times> string) option"
where
  "parse_value 0 s = None"
| "parse_value (Suc n) s =
     (case skip_ws s of
        [] \<Rightarrow> None
      | c # cs \<Rightarrow>
          if c = CHR ''{'' then
            (case strip_prefix ''}'' (skip_ws cs) of
               Some rest \<Rightarrow> Some (JObj [], rest)
             | None \<Rightarrow>
                 (case parse_members n cs of
                    None \<Rightarrow> None
                  | Some (ms, rest) \<Rightarrow> Some (make_object ms, rest)))
          else if c = CHR ''['' then
            (case strip_prefix '']'' (skip_ws cs) of
               Some rest \<Rightarrow> Some (JArr [], rest)
             | None \<Rightarrow>
                 (case parse_elements n cs of
                    None \<Rightarrow> None
                  | Some (vs, rest) \<Rightarrow> Some (JArr vs, rest)))
          else if c = dquote then
            (case parse_chars cs of
               None \<Rightarrow> None
             | Some (str, rest) \<Rightarrow> Some (JStr str, rest))
          else if c = CHR ''t'' then map_option (Pair (JBool True)) (strip_prefix ''rue'' cs)
          else if c = CHR ''f'' then map_option (Pair (JBool False)) (strip_prefix ''alse'' cs)
          else if c = CHR ''n'' then map_option (Pair JNull) (strip_prefix ''ull'' cs)
          else parse_number (c # cs))"
| "parse_elements 0 s = None"
| "parse_elements (Suc n) s =
     (case parse_value n s of
        None \<Rightarrow> None
      | Some (v, r) \<Rightarrow>
          (case skip_ws r of
             [] \<Rightarrow> None
           | c # r' \<Rightarrow>
               if c = CHR '','' then cons_result v (parse_elements n r')
               else if c = CHR '']'' then Some ([v], r')
               else None))"
| "parse_members 0 s = None"
| "parse_members (Suc n) s =
     (case skip_ws s of
        [] \<Rightarrow> None
      | q # cs \<Rightarrow>
          if q \<noteq> dquote then None
          else
            (case parse_chars cs of
               None \<Rightarrow> None
             | Some (k, r) \<Rightarrow>
                 (case strip_prefix '':'' (skip_ws r) of
                    None \<Rightarrow> None
                  | Some r1 \<Rightarrow>
                      (case parse_value n r1 of
                         None \<Rightarrow> None
                       | Some (v, r2) \<Rightarrow>
                           (case skip_ws r2 of
                              [] \<Rightarrow> None
                            | c # r3 \<Rightarrow>
                                if c = CHR '','' then cons_result (k, v) (parse_members n r3)
                                else if c = CHR ''}'' then Some ([(k, v)], r3)
                                else None)))))"

definition JSON_parse :: "string \<Rightarrow> jsval option" where
  "JSON_parse s =
     (case parse_value (2 * length s + 2) s of
        None \<Rightarrow> None
      | Some (v, rest) \<Rightarrow> if skip_ws rest = [] then Some v else None)"

subsection \<open>The token endpoint\<close>

record request =
  req_method :: string
  req_body :: string

record response =
  res_status :: nat
  res_content_type :: string
  res_body :: string

text \<open>\<open>parseBody\<close> resolves with the parsed body, or with an empty object.\<close>

definition parseBody :: "string \<Rightarrow> jsval" where
  "parseBody body =
     (if body \<noteq> [] then (case JSON_parse body of Some v \<Rightarrow> v | None \<Rightarrow> JObj [])
      else JObj [])"

text \<open>
  \<open>error.message\<close> of the two TypeErrors, abridged; no statement below depends on the
  wording.
\<close>

definition error_message :: "js_error \<Rightarrow> string" where
  "error_message e =
     (case e of
        TypeError_property_of_null \<Rightarrow> ''Cannot read properties of null''
      | TypeError_hmac_key \<Rightarrow> ''The key argument must be of type string'')"

definition json_response :: "nat \<Rightarrow> (string \<times> jsval) list \<Rightarrow> response" where
  "json_response code obj =
     \<lparr>res_status = code, res_content_type = ''application/json'', res_body = ser (JObj obj)\<rparr>"

text \<open>\<^verbatim>\<open>role = body.role || role\<close> inside the POST branch, with the default role 1.\<close>

definition request_role :: "request \<Rightarrow> js_error + jsval" where
  "request_role req =
     (let role = JNum 1
      in if req_method req = ''POST'' then
           (case get_prop (parseBody (req_body req)) ''role'' of
              None \<Rightarrow> Inl TypeError_property_of_null
            | Some r \<Rightarrow> Inr (if truthy r then r else role))
         else Inr role)"

definition handleTokenRequest :: "config \<Rightarrow> request \<Rightarrow> world \<Rightarrow> response \<times> world" where
  "handleTokenRequest cfg req w =
     (case request_role req of
        Inl e \<Rightarrow> (json_response 500 [(''error'', JStr (error_message e))], w)
      | Inr role \<Rightarrow>
          if SDK_KEY cfg = ''YOUR_SDK_KEY_HERE'' \<or> SDK_SECRET cfg = ''YOUR_SDK_SECRET_HERE'' then
            (json_response 500
               [(''error'', JStr ''SDK_KEY and SDK_SECRET environment variables must be set'')], w)
          else
            (case generateToken cfg (JStr (SDK_KEY cfg)) (JStr (SDK_SECRET cfg)) role w of
               (Inl e, w') \<Rightarrow> (json_response 500 [(''error'', JStr (error_message e))], w')
             | (Inr token, w') \<Rightarrow>
                 (json_response 200
                    [(''token'', JStr token),
                     (''role'', role),
                     (''expiresIn'', JNum (TOKEN_EXPIRY cfg)),
                     (''domain'', JStr (ZOOM_DOMAIN cfg))], w')))"

section \<open>The codec operations of the specification\<close>

text \<open>
  Modelled from the spec: the repository has no \<open>Decode\<close> and no \<open>Verify\<close>; the
  specification describes them (section 4.1), and the definitions below follow its words.
  \<open>Decode\<close> splits the token on the dot, fails with \<open>MalformedToken\<close> unless there are
  exactly three segments, base64-decodes (absent padding tolerated) and JSON-parses the
  header and the claims, and does not look at the signature. \<open>Verify\<close> recomputes the
  signature over the first two segments and compares it with the third.
\<close>

datatype codec_error = MalformedToken

fun split_on :: "char \<Rightarrow> string \<Rightarrow> string list" where
  "split_on c [] = [[]]"
| "split_on c (x # xs) =
     (if x = c then [] # split_on c xs
      else (case split_on c xs of [] \<Rightarrow> [[x]] | s # ss \<Rightarrow> (x # s) # ss))"

definition b64url_val :: "char \<Rightarrow> nat option" where
  "b64url_val c =
     (let n = (of_char c :: nat)
      in if 65 \<le> n \<and> n \<le> 90 then Some (n - 65)
         else if 97 \<le> n \<and> n \<le> 122 then Some (n - 71)
         else if 48 \<le> n \<and> n \<le> 57 then Some (n + 4)
         else if c = CHR ''-'' then Some 62
         else if c = CHR ''_'' then Some 63
         else None)"

fun b64url_decode :: "string \<Rightarrow> byte list option" where
  "b64url_decode [] = Some []"
| "b64url_decode [a] = None"
| "b64url_decode [a, b] =
     (case (b64url_val a, b64url_val b) of
        (Some x, Some y) \<Rightarrow> Some [of_nat ((x * 64 + y) div 16)]
      | _ \<Rightarrow> None)"
| "b64url_decode [a, b, c] =
     (case (b64url_val a, b64url_val b, b64url_val c) of
        (Some x, Some y, Some z) \<Rightarrow>
          (let n = (x * 64 + y) * 64 + z in Some [of_nat (n div 1024), of_nat (n div 4 mod 256)])
      | _ \<Rightarrow> None)"
| "b64url_decode (a # b # c # d # rest) =
     (case (b64url_val a, b64url_val b, b64url_val c, b64url_val d) of
        (Some x, Some y, Some z, Some u) \<Rightarrow>
          (let n = ((x * 64 + y) * 64 + z) * 64 + u
           in case b64url_decode rest of
                None \<Rightarrow> None
              | Some bs \<Rightarrow> Some (of_nat (n div 65536) # of_nat (n div 256 mod 256) # of_nat (n mod 256) # bs))
      | _ \<Rightarrow> None)"

fun utf8_decode :: "byte list \<Rightarrow> string option" where
  "utf8_decode [] = Some []"
| "utf8_decode (b # bs) =
     (if unat b < 128 then map_option (Cons (char_of (unat b))) (utf8_decode bs)
      else if unat b = 194 \<or> unat b = 195 then
        (case bs of
           [] \<Rightarrow> None
         | b2 # bs' \<Rightarrow>
             if 128 \<le> unat b2 \<and> unat b2 < 192 then
               map_option (Cons (char_of ((unat b - 192) * 64 + (unat b2 - 128)))) (utf8_decode bs')
             else None)
      else None)"

definition decode_segment :: "string \<Rightarrow> jsval option" where
  "decode_segment seg =
     (case b64url_decode seg of
        None \<Rightarrow> None
      | Some bytes \<Rightarrow> (case utf8_decode bytes of None \<Rightarrow> None | Some json \<Rightarrow> JSON_parse json))"

definition Decode :: "string \<Rightarrow> codec_error + (jsval \<times> jsval)" where
  "Decode token =
     (case split_on (CHR ''.'') token of
        [h, p, s] \<Rightarrow>
          (case (decode_segment h, decode_segment p) of
             (Some hdr, Some claims) \<Rightarrow> Inr (hdr, claims)
           | _ \<Rightarrow> Inl MalformedToken)
      | _ \<Rightarrow> Inl MalformedToken)"

text \<open>
  The URL-safe base64 scheme in the words of the specification: the standard alphabet with
  \<open>+\<close> written \<open>-\<close>, \<open>/\<close> written \<open>_\<close>, and every \<open>=\<close> stripped.
\<close>

definition url_safe_base64 :: "byte list \<Rightarrow> string" where
  "url_safe_base64 bytes =
     filter (\<lambda>c. c \<noteq> CHR ''='')
       (map (\<lambda>c. if c = CHR ''+'' then CHR ''-'' else if c = CHR ''/'' then CHR ''_'' else c)
          (base64 bytes))"

definition signature_segment :: "string \<Rightarrow> string \<Rightarrow> string" where
  "signature_segment secret signing_input =
     url_safe_base64 (hmac_sha256 (utf8 secret) (utf8 signing_input))"

definition Verify :: "string \<Rightarrow> string \<Rightarrow> codec_error + bool" where
  "Verify token secret =
     (case split_on (CHR ''.'') token of
        [h, p, s] \<Rightarrow> Inr (signature_segment secret (h @ ''.'' @ p) = s)
      | _ \<Rightarrow> Inl MalformedToken)"

section \<open>Auxiliary definitions\<close>

text \<open>
  The claims object that \<open>generateToken\<close> assembles when it starts in the world \<open>w\<close>:
  the first clock reading gives \<open>iat\<close>, the second one the identifier.
\<close>

definition claims_at :: "config \<Rightarrow> jsval \<Rightarrow> jsval \<Rightarrow> world \<Rightarrow> (string \<times> jsval) list" where
  "claims_at cfg sdkKey role_arg w =
     payload sdkKey (if role_arg = JUndefined then JNum 1 else role_arg)
       (clock w (reads w) div 1000)
       (clock w (reads w) div 1000 + TOKEN_EXPIRY cfg)
       (''user_'' @ show_int (clock w (Suc (reads w))))"

text \<open>The three replacements that the source applies to a base64 text.\<close>

definition replace_chain :: "string \<Rightarrow> string" where
  "replace_chain s =
     replace_all (CHR ''='') [] (replace_all (CHR ''/'') ''_'' (replace_all (CHR ''+'') ''-'' s))"

text \<open>The unpadded URL-safe encoding of RFC 4648, section 5, written out directly.\<close>

definition b64url_char :: "nat \<Rightarrow> char" where
  "b64url_char i =
     (if i < 26 then char_of (65 + i)
      else if i < 52 then char_of (71 + i)
      else if i < 62 then char_of (i - 4)
      else if i = 62 then CHR ''-''
      else CHR ''_'')"

fun b64url_encode :: "byte list \<Rightarrow> string" where
  "b64url_encode [] = []"
| "b64url_encode [a] =
     (let n = unat a * 65536
      in [b64url_char (n div 262144), b64url_char (n div 4096 mod 64)])"
| "b64url_encode [a, b] =
     (let n = unat a * 65536 + unat b * 256
      in [b64url_char (n div 262144), b64url_char (n div 4096 mod 64),
          b64url_char (n div 64 mod 64)])"
| "b64url_encode (a # b # c # rest) =
     (let n = unat a * 65536 + unat b * 256 + unat c
      in [b64url_char (n div 262144), b64url_char (n div 4096 mod 64),
          b64url_char (n div 64 mod 64), b64url_char (n mod 64)] @ b64url_encode rest)"

text \<open>What may follow an integer literal: the end of the text, or a character that is not
  a digit and does not continue the number.\<close>

definition number_end :: "string \<Rightarrow> bool" where
  "number_end rest =
     (case rest of [] \<Rightarrow> True
      | c # _ \<Rightarrow> \<not> is_digit c \<and> c \<noteq> CHR ''.'' \<and> c \<noteq> CHR ''e'' \<and> c \<noteq> CHR ''E'')"

text \<open>Values written as a string or an integer literal, and the text of one member.\<close>

fun atomic :: "jsval \<Rightarrow> bool" where
  "atomic (JStr s) = True"
| "atomic (JNum i) = True"
| "atomic v = False"

definition member_text :: "string \<times> jsval \<Rightarrow> string" where
  "member_text kv = json_quote (fst kv) @ '':'' @ ser (snd kv)"

text \<open>A configured server and a clock that stands still, for concrete instances.\<close>

definition sample_world :: world where
  "sample_world = \<lparr>clock = (\<lambda>k. 1700000000000), reads = 0\<rparr>"

definition sample_config :: config where
  "sample_config = CONFIG (Some ''key123'') (Some ''secret456'')"

definition role0_request :: request where
  "role0_request =
     \<lparr>req_method = ''POST'', req_body = [CHR ''{'', dquote] @ ''role'' @ [dquote] @ '':0}''\<rparr>"

section \<open>The shape of a token\<close>

lemma generateToken_string_secret:
  "generateToken cfg sdkKey (JStr secret) role_arg w =
     (Inr (base64url header @ ''.'' @ base64url (claims_at cfg sdkKey role_arg w) @ ''.''
            @ replace_chain (base64 (hmac_sha256 (utf8 secret)
                (utf8 (base64url header @ ''.'' @ base64url (claims_at cfg sdkKey role_arg w)))))),
      w\<lparr>reads := Suc (Suc (reads w))\<rparr>)"
  by (simp add: generateToken_def Date_now_def hmac_digest_base64_def claims_at_def
      replace_chain_def Let_def)



subsection \<open>The base64 alphabets\<close>

lemma byte_bound: "unat (b :: byte) < 256"
  using unsigned_less [of b, where 'a = nat] by simp

lemma char_eq_code: "(c = d) = ((of_char c :: nat) = of_char d)"
  by simp

lemma of_char_b64url_char:
  "(of_char (b64url_char i) :: nat) =
     (if i < 26 then 65 + i else if i < 52 then 71 + i else if i < 62 then i - 4
      else if i = 62 then 45 else 95)"
  by (simp add: b64url_char_def)

lemma of_char_b64_char:
  "(of_char (b64_char i) :: nat) =
     (if i < 26 then 65 + i else if i < 52 then 71 + i else if i < 62 then i - 4
      else if i = 62 then 43 else 47)"
  by (simp add: b64_char_def)

lemma b64_char_subst:
  "(if b64_char i = CHR ''+'' then CHR ''-'' else if b64_char i = CHR ''/'' then CHR ''_'' else b64_char i)
     = b64url_char i"
  by (simp add: char_eq_code of_char_b64_char of_char_b64url_char del: of_char_eq_iff) arith

lemma b64url_char_not_dot: "b64url_char i \<noteq> CHR ''.''"
  by (simp add: char_eq_code of_char_b64url_char del: of_char_eq_iff) arith

lemma b64url_char_not_pad: "b64url_char i \<noteq> CHR ''=''"
  by (simp add: char_eq_code of_char_b64url_char del: of_char_eq_iff) arith

lemma b64url_val_char: "i < 64 \<Longrightarrow> b64url_val (b64url_char i) = Some i"
  unfolding b64url_val_def Let_def
  by (simp add: char_eq_code [of _ "CHR ''-''"] char_eq_code [of _ "CHR ''_''"]
      of_char_b64url_char del: of_char_eq_iff) arith

subsection \<open>The replacements give the URL-safe encoding\<close>

lemma replace_chain_eq:
  "replace_chain s =
     filter (\<lambda>c. c \<noteq> CHR ''='')
       (map (\<lambda>c. if c = CHR ''+'' then CHR ''-'' else if c = CHR ''/'' then CHR ''_'' else c) s)"
  by (induction s) (simp_all add: replace_chain_def replace_all_def)

lemma replace_chain_base64: "replace_chain (base64 bytes) = url_safe_base64 bytes"
  by (simp add: replace_chain_eq url_safe_base64_def)

lemma url_safe_base64_eq: "url_safe_base64 bytes = b64url_encode bytes"
  by (induction bytes rule: base64.induct)
    (simp_all add: url_safe_base64_def Let_def b64_char_subst b64url_char_not_pad)

lemma b64url_encode_no_dot: "CHR ''.'' \<notin> set (b64url_encode bytes)"
  by (induction bytes rule: b64url_encode.induct)
    (simp_all add: Let_def b64url_char_not_dot [symmetric])

lemma base64url_eq: "base64url obj = url_safe_base64 (utf8 (ser (JObj obj)))"
  by (simp add: base64url_def Let_def replace_chain_base64 [unfolded replace_chain_def])

lemma url_safe_base64_no_dot: "CHR ''.'' \<notin> set (url_safe_base64 bytes)"
  by (simp add: url_safe_base64_eq b64url_encode_no_dot)

lemma base64url_no_dot: "CHR ''.'' \<notin> set (base64url obj)"
  by (simp add: base64url_eq url_safe_base64_no_dot)

subsection \<open>Splitting a token\<close>

lemma split_on_no_sep: "c \<notin> set s \<Longrightarrow> split_on c s = [s]"
  by (induction s) auto

lemma split_on_append: "c \<notin> set s \<Longrightarrow> split_on c (s @ c # rest) = s # split_on c rest"
  by (induction s) auto

lemma count_no_sep: "c \<notin> set s \<Longrightarrow> filter (\<lambda>x. x = c) s = []"
  by (induction s) auto

lemma generateToken_segments:
  "\<exists>tok. fst (generateToken cfg sdkKey (JStr secret) role_arg w) = Inr tok
     \<and> split_on (CHR ''.'') tok =
         [base64url header,
          base64url (claims_at cfg sdkKey role_arg w),
          signature_segment secret
            (base64url header @ ''.'' @ base64url (claims_at cfg sdkKey role_arg w))]
     \<and> filter (\<lambda>x. x = CHR ''.'') tok = ''..''"
  by (simp add: generateToken_string_secret replace_chain_base64 signature_segment_def
      split_on_append split_on_no_sep base64url_no_dot url_safe_base64_no_dot count_no_sep)



section \<open>Determinism of the signature\<close>

text \<open>
  C3. The signature segment is a function of the header segment, the claims segment and the
  secret: two tokens signed with the same secret that agree on their first two segments
  agree on the third, whatever configuration, key, role and clock produced them. With a
  stubbed clock, one that returns the same time at every reading, two calls with the same
  arguments return the same token, however many readings went before.
\<close>

theorem signature_determinism:
  "(fst (generateToken cfg1 key1 (JStr secret) role1 w1) = Inr tok1
      \<and> fst (generateToken cfg2 key2 (JStr secret) role2 w2) = Inr tok2
      \<and> take 2 (split_on (CHR ''.'') tok1) = take 2 (split_on (CHR ''.'') tok2)
    \<longrightarrow> split_on (CHR ''.'') tok1 ! 2 = split_on (CHR ''.'') tok2 ! 2 \<and> tok1 = tok2)
   \<and> (clock w1 = (\<lambda>k. t) \<and> clock w2 = (\<lambda>k. t)
    \<longrightarrow> fst (generateToken cfg sdkKey sdkSecret role_arg w1)
        = fst (generateToken cfg sdkKey sdkSecret role_arg w2))"
proof (intro conjI impI)
  assume a: "fst (generateToken cfg1 key1 (JStr secret) role1 w1) = Inr tok1
      \<and> fst (generateToken cfg2 key2 (JStr secret) role2 w2) = Inr tok2
      \<and> take 2 (split_on (CHR ''.'') tok1) = take 2 (split_on (CHR ''.'') tok2)"
  from generateToken_segments [of cfg1 key1 secret role1 w1] a
  have s1: "split_on (CHR ''.'') tok1 =
         [base64url header, base64url (claims_at cfg1 key1 role1 w1),
          signature_segment secret
            (base64url header @ ''.'' @ base64url (claims_at cfg1 key1 role1 w1))]"
    by auto
  from generateToken_segments [of cfg2 key2 secret role2 w2] a
  have s2: "split_on (CHR ''.'') tok2 =
         [base64url header, base64url (claims_at cfg2 key2 role2 w2),
          signature_segment secret
            (base64url header @ ''.'' @ base64url (claims_at cfg2 key2 role2 w2))]"
    by auto
  from a s1 s2
  have p: "base64url (claims_at cfg1 key1 role1 w1) = base64url (claims_at cfg2 key2 role2 w2)"
    by simp
  show "split_on (CHR ''.'') tok1 ! 2 = split_on (CHR ''.'') tok2 ! 2"
    by (simp add: s1 s2 p)
  from a p show "tok1 = tok2"
    by (auto simp: generateToken_string_secret)
next
  assume "clock w1 = (\<lambda>k. t) \<and> clock w2 = (\<lambda>k. t)"
  then show "fst (generateToken cfg sdkKey sdkSecret role_arg w1)
        = fst (generateToken cfg sdkKey sdkSecret role_arg w2)"
    by (simp add: generateToken_def Date_now_def Let_def split: sum.splits)
qed

theorem signature_determinism_witness:
  "split_on (CHR ''.'')
       (projr (fst (generateToken sample_config (JStr ''key123'') (JStr ''secret456'') (JNum 2)
                      sample_world))) ! 2
     = split_on (CHR ''.'')
         (projr (fst (generateToken sample_config (JStr ''key123'') (JStr ''secret456'') (JNum 2)
                        (sample_world\<lparr>reads := 7\<rparr>)))) ! 2
   \<and> projr (fst (generateToken sample_config (JStr ''key123'') (JStr ''secret456'') (JNum 2)
                   sample_world))
     = projr (fst (generateToken sample_config (JStr ''key123'') (JStr ''secret456'') (JNum 2)
                     (sample_world\<lparr>reads := 7\<rparr>)))
   \<and> fst (generateToken sample_config (JStr ''key123'') (JStr ''secret456'') (JNum 2) sample_world)
     = fst (generateToken sample_config (JStr ''key123'') (JStr ''secret456'') (JNum 2)
              (sample_world\<lparr>reads := 7\<rparr>))"
proof -
  let ?g1 = "generateToken sample_config (JStr ''key123'') (JStr ''secret456'') (JNum 2) sample_world"
  let ?g2 = "generateToken sample_config (JStr ''key123'') (JStr ''secret456'') (JNum 2)
               (sample_world\<lparr>reads := 7\<rparr>)"
  have c: "claims_at sample_config (JStr ''key123'') (JNum 2) (sample_world\<lparr>reads := 7\<rparr>)
           = claims_at sample_config (JStr ''key123'') (JNum 2) sample_world"
    by (simp add: claims_at_def sample_world_def)
  have 1: "fst ?g1 = Inr (projr (fst ?g1))"
    by (simp add: generateToken_string_secret)
  have 2: "fst ?g2 = Inr (projr (fst ?g2))"
    by (simp add: generateToken_string_secret)
  have 3: "take 2 (split_on (CHR ''.'') (projr (fst ?g1)))
           = take 2 (split_on (CHR ''.'') (projr (fst ?g2)))"
    by (simp add: generateToken_string_secret c)
  have 4: "clock sample_world = (\<lambda>k. 1700000000000)
           \<and> clock (sample_world\<lparr>reads := 7\<rparr>) = (\<lambda>k. 1700000000000)"
    by (simp add: sample_world_def)
  from signature_determinism [where ?cfg1.0 = sample_config and ?key1.0 = "JStr ''key123''"
      and secret = "''secret456''" and ?role1.0 = "JNum 2" and ?w1.0 = sample_world
      and ?tok1.0 = "projr (fst ?g1)" and ?cfg2.0 = sample_config and ?key2.0 = "JStr ''key123''"
      and ?role2.0 = "JNum 2" and ?w2.0 = "sample_world\<lparr>reads := 7\<rparr>"
      and ?tok2.0 = "projr (fst ?g2)" and t = 1700000000000 and cfg = sample_config
      and sdkKey = "JStr ''key123''" and sdkSecret = "JStr ''secret456''" and role_arg = "JNum 2"]
    1 2 3 4
  show ?thesis by blast
qed

section \<open>Arguments that are empty or missing\<close>




section \<open>The generated identifier\<close>

lemma show_int_sample: "show_int 1700000000000 = ''1700000000000''"
  by (simp add: show_int_def show_nat.simps digit_char_def char_of_def bit_0)

text \<open>
  C8 fails on the code: the identifier is the millisecond clock reading, so two calls in
  the same millisecond give the same \<open>user_id\<close>. Here the clock reads 1700000000000 at
  every reading, and the second call starts in the world that the first call left.
\<close>

theorem user_id_collision:
  "fst (generateToken sample_config (JStr ''key123'') (JStr ''secret456'') (JNum 1) sample_world)
   = fst (generateToken sample_config (JStr ''key123'') (JStr ''secret456'') (JNum 1)
            (snd (generateToken sample_config (JStr ''key123'') (JStr ''secret456'') (JNum 1)
                    sample_world)))
   \<and> claims_at sample_config (JStr ''key123'') (JNum 1) sample_world
     = claims_at sample_config (JStr ''key123'') (JNum 1)
            (snd (generateToken sample_config (JStr ''key123'') (JStr ''secret456'') (JNum 1)
                    sample_world))
   \<and> map_of (claims_at sample_config (JStr ''key123'') (JNum 1) sample_world) ''user_id''
     = Some (JStr ''user_1700000000000'')"
  by (simp add: generateToken_string_secret claims_at_def sample_world_def payload_def
      show_int_sample)

section \<open>The default role at the endpoint\<close>

lemma request_role_default:
  assumes "req_method req \<noteq> ''POST'' \<or>
           (case get_prop (parseBody (req_body req)) ''role'' of
              None \<Rightarrow> True | Some v \<Rightarrow> \<not> truthy v)"
    and "request_role req = Inr role"
  shows "role = JNum 1"
  using assms by (auto simp: request_role_def Let_def split: if_splits option.splits)

lemma handle_200:
  assumes "res_status (fst (handleTokenRequest cfg req w)) = 200"
  shows "\<exists>role. request_role req = Inr role
        \<and> handleTokenRequest cfg req w =
            (json_response 200
               [(''token'', JStr (projr (fst (generateToken cfg (JStr (SDK_KEY cfg))
                                               (JStr (SDK_SECRET cfg)) role w)))),
                (''role'', role),
                (''expiresIn'', JNum (TOKEN_EXPIRY cfg)),
                (''domain'', JStr (ZOOM_DOMAIN cfg))], w\<lparr>reads := Suc (Suc (reads w))\<rparr>)"
  using assms
  by (auto simp: handleTokenRequest_def json_response_def generateToken_string_secret
      split: sum.splits if_splits)

lemma status_200_iff:
  "(res_status (fst (handleTokenRequest cfg req w)) = 200) =
     ((\<exists>role. request_role req = Inr role)
       \<and> SDK_KEY cfg \<noteq> ''YOUR_SDK_KEY_HERE'' \<and> SDK_SECRET cfg \<noteq> ''YOUR_SDK_SECRET_HERE'')"
  by (auto simp: handleTokenRequest_def json_response_def generateToken_string_secret
      split: sum.splits if_splits)

lemma null_body: "parseBody ''null'' = JNull"
  by code_simp

lemma null_body_response:
  "res_status (fst (handleTokenRequest cfg \<lparr>req_method = ''POST'', req_body = ''null''\<rparr> w)) = 500"
  by (simp add: handleTokenRequest_def request_role_def null_body json_response_def)

text \<open>
  C10. Take a request whose method is not POST, or whose parsed body has no \<open>role\<close>
  property or a falsy one (0, the empty string, \<open>false\<close>, \<open>null\<close>). Whenever the endpoint
  issues a token for it (status 200), the response echoes role 1 and the token is the one
  that \<open>generateToken\<close> makes for role 1, with \<open>role_type\<close> 1 in its claims: a role 0 sent
  by the caller is replaced.
\<close>

theorem default_role:
  assumes "req_method req \<noteq> ''POST'' \<or>
           (case get_prop (parseBody (req_body req)) ''role'' of
              None \<Rightarrow> True | Some v \<Rightarrow> \<not> truthy v)"
    and "res_status (fst (handleTokenRequest cfg req w)) = 200"
  shows "\<exists>token iat exp uid sig.
           fst (handleTokenRequest cfg req w) =
             json_response 200
               [(''token'', JStr token), (''role'', JNum 1),
                (''expiresIn'', JNum (TOKEN_EXPIRY cfg)), (''domain'', JStr (ZOOM_DOMAIN cfg))]
         \<and> fst (generateToken cfg (JStr (SDK_KEY cfg)) (JStr (SDK_SECRET cfg)) (JNum 1) w)
             = Inr token
         \<and> token = base64url header @ ''.''
               @ base64url (payload (JStr (SDK_KEY cfg)) (JNum 1) iat exp uid) @ ''.'' @ sig"
proof -
  from handle_200 [OF assms(2)] obtain role where
    r: "request_role req = Inr role" and
    h: "handleTokenRequest cfg req w =
            (json_response 200
               [(''token'', JStr (projr (fst (generateToken cfg (JStr (SDK_KEY cfg))
                                               (JStr (SDK_SECRET cfg)) role w)))),
                (''role'', role),
                (''expiresIn'', JNum (TOKEN_EXPIRY cfg)),
                (''domain'', JStr (ZOOM_DOMAIN cfg))], w\<lparr>reads := Suc (Suc (reads w))\<rparr>)"
    by blast
  have role: "role = JNum 1"
    using request_role_default [OF assms(1) r] .
  show ?thesis
    unfolding h role
    by (simp add: generateToken_string_secret claims_at_def) blast
qed

lemma role0_request_role: "get_prop (parseBody (req_body role0_request)) ''role'' = Some (JNum 0)"
  by code_simp

theorem default_role_witness:
  "\<exists>token iat exp uid sig.
     fst (handleTokenRequest sample_config role0_request sample_world) =
       json_response 200
         [(''token'', JStr token), (''role'', JNum 1),
          (''expiresIn'', JNum (TOKEN_EXPIRY sample_config)),
          (''domain'', JStr (ZOOM_DOMAIN sample_config))]
     \<and> fst (generateToken sample_config (JStr (SDK_KEY sample_config))
              (JStr (SDK_SECRET sample_config)) (JNum 1) sample_world) = Inr token
     \<and> token = base64url header @ ''.''
           @ base64url (payload (JStr (SDK_KEY sample_config)) (JNum 1) iat exp uid) @ ''.'' @ sig"
proof -
  have a: "req_method role0_request \<noteq> ''POST'' \<or>
           (case get_prop (parseBody (req_body role0_request)) ''role'' of
              None \<Rightarrow> True | Some v \<Rightarrow> \<not> truthy v)"
    by (simp add: role0_request_role)
  have m: "req_method role0_request = ''POST''"
    by (simp add: role0_request_def)
  have b: "res_status (fst (handleTokenRequest sample_config role0_request sample_world)) = 200"
    by (simp add: handleTokenRequest_def request_role_def role0_request_role m Let_def
        sample_config_def CONFIG_def env_or_def generateToken_string_secret json_response_def)
  show ?thesis
    using default_role [OF a b] .
qed

section \<open>Decoding inverts encoding\<close>

subsection \<open>Base64\<close>

lemma of_nat_unat_byte: "n = unat (b :: byte) \<Longrightarrow> (of_nat n :: byte) = b"
  by simp


lemma recombine:
  fixes n :: nat
  shows "((n div 262144 * 64 + n div 4096 mod 64) * 64 + n div 64 mod 64) * 64 + n mod 64 = n"
proof -
  have a: "n div 4096 = n div 64 div 64" by (simp add: div_mult2_eq [symmetric])
  have b: "n div 262144 = n div 64 div 64 div 64" by (simp add: div_mult2_eq [symmetric])
  show ?thesis unfolding a b by (simp only: div_mult_mod_eq)
qed

lemma bytes_of_group:
  fixes x y z :: nat
  assumes "x < 256" "y < 256" "z < 256"
  shows "(x * 65536 + y * 256 + z) div 65536 = x"
    and "(x * 65536 + y * 256 + z) div 256 mod 256 = y"
    and "(x * 65536 + y * 256 + z) mod 256 = z"
proof -
  have e: "x * 65536 + y * 256 + z = (x * 256 + y) * 256 + z" by simp
  show "(x * 65536 + y * 256 + z) div 65536 = x" using assms by simp
  have m: "(q * 256 + r) mod 256 = r" if "r < 256" for q r :: nat using that by simp
  have d: "(q * 256 + r) div 256 = q" if "r < 256" for q r :: nat using that by simp
  show "(x * 65536 + y * 256 + z) mod 256 = z"
    by (subst e) (rule m [OF assms(3)])
  show "(x * 65536 + y * 256 + z) div 256 mod 256 = y"
    by (subst e) (simp only: d [OF assms(3)] m [OF assms(2)])
qed

lemma sextet_bounds:
  fixes n :: nat
  assumes "n < 16777216"
  shows "n div 262144 < 64"
  using assms by simp

lemma decode_quad:
  assumes "b64url_val c0 = Some s0" "b64url_val c1 = Some s1" "b64url_val c2 = Some s2"
    "b64url_val c3 = Some s3" "b64url_decode r = Some bs"
    and "((s0 * 64 + s1) * 64 + s2) * 64 + s3 = n"
  shows "b64url_decode (c0 # c1 # c2 # c3 # r) =
           Some (of_nat (n div 65536) # of_nat (n div 256 mod 256) # of_nat (n mod 256) # bs)"
  using assms(1-5) unfolding assms(6) [symmetric] by (simp add: Let_def)

lemma decode_triple:
  assumes "b64url_val c0 = Some s0" "b64url_val c1 = Some s1" "b64url_val c2 = Some s2"
    and "(s0 * 64 + s1) * 64 + s2 = n"
  shows "b64url_decode [c0, c1, c2] = Some [of_nat (n div 1024), of_nat (n div 4 mod 256)]"
  using assms(1-3) unfolding assms(4) [symmetric] by (simp add: Let_def)

lemma decode_pair:
  assumes "b64url_val c0 = Some s0" "b64url_val c1 = Some s1"
    and "s0 * 64 + s1 = n"
  shows "b64url_decode [c0, c1] = Some [of_nat (n div 16)]"
  using assms(1-2) unfolding assms(3) [symmetric] by simp

lemma recombine3:
  fixes n :: nat
  shows "(n div 262144 * 64 + n div 4096 mod 64) * 64 + n div 64 mod 64 = n div 64"
proof -
  have a: "n div 4096 = n div 64 div 64" by (simp add: div_mult2_eq [symmetric])
  have b: "n div 262144 = n div 64 div 64 div 64" by (simp add: div_mult2_eq [symmetric])
  show ?thesis unfolding a b by (simp only: div_mult_mod_eq)
qed

lemma recombine2:
  fixes n :: nat
  shows "n div 262144 * 64 + n div 4096 mod 64 = n div 4096"
proof -
  have b: "n div 262144 = n div 4096 div 64" by (simp add: div_mult2_eq [symmetric])
  show ?thesis unfolding b by (simp only: div_mult_mod_eq)
qed

lemma sextet_bound: "(n::nat) < 16777216 \<Longrightarrow> n div 262144 < 64"
  by simp

lemma mod64: "(n::nat) mod 64 < 64"
  by simp

lemma b64url_decode_encode: "b64url_decode (b64url_encode bytes) = Some bytes"
proof (induction bytes rule: b64url_encode.induct)
  case 1
  show ?case by simp
next
  case (2 a)
  define n where "n = unat a * 65536"
  have n: "n < 16777216" using byte_bound [of a] by (simp add: n_def)
  have enc: "b64url_encode [a] = [b64url_char (n div 262144), b64url_char (n div 4096 mod 64)]"
    by (simp only: b64url_encode.simps Let_def n_def)
  have "n div 4096 div 16 = n div 65536" by (simp add: div_mult2_eq [symmetric])
  also have "\<dots> = unat a" unfolding n_def by simp
  finally have x: "n div 4096 div 16 = unat a" .
  show ?case
    unfolding enc
    by (simp only: decode_pair [OF b64url_val_char [OF sextet_bound [OF n]]
          b64url_val_char [OF mod64] recombine2] x of_nat_unat_byte [OF refl])
next
  case (3 a b)
  define n where "n = unat a * 65536 + unat b * 256"
  have n: "n < 16777216" using byte_bound [of a] byte_bound [of b] by (simp add: n_def)
  have enc: "b64url_encode [a, b] =
      [b64url_char (n div 262144), b64url_char (n div 4096 mod 64), b64url_char (n div 64 mod 64)]"
    by (simp only: b64url_encode.simps Let_def n_def)
  have "n div 64 div 1024 = n div 65536" by (simp add: div_mult2_eq [symmetric])
  also have "\<dots> = unat a"
    unfolding n_def using bytes_of_group(1) [of "unat a" "unat b" 0] by (simp add: byte_bound)
  finally have x: "n div 64 div 1024 = unat a" .
  have "n div 64 div 4 mod 256 = n div 256 mod 256" by (simp add: div_mult2_eq [symmetric])
  also have "\<dots> = unat b"
    unfolding n_def using bytes_of_group(2) [of "unat a" "unat b" 0] by (simp add: byte_bound)
  finally have y: "n div 64 div 4 mod 256 = unat b" .
  show ?case
    unfolding enc
    by (simp only: decode_triple [OF b64url_val_char [OF sextet_bound [OF n]]
          b64url_val_char [OF mod64] b64url_val_char [OF mod64] recombine3] x y
          of_nat_unat_byte [OF refl])
next
  case (4 a b c rest)
  define n where "n = unat a * 65536 + unat b * 256 + unat c"
  have n: "n < 16777216"
    using byte_bound [of a] byte_bound [of b] byte_bound [of c] by (simp add: n_def)
  have enc: "b64url_encode (a # b # c # rest) =
      b64url_char (n div 262144) # b64url_char (n div 4096 mod 64) # b64url_char (n div 64 mod 64)
        # b64url_char (n mod 64) # b64url_encode rest"
    by (simp only: b64url_encode.simps Let_def n_def append_Cons append_Nil)
  have x: "n div 65536 = unat a" unfolding n_def by (rule bytes_of_group(1)) (simp_all add: byte_bound)
  have y: "n div 256 mod 256 = unat b" unfolding n_def by (rule bytes_of_group(2)) (simp_all add: byte_bound)
  have z: "n mod 256 = unat c" unfolding n_def by (rule bytes_of_group(3)) (simp_all add: byte_bound)
  show ?case
    unfolding enc
    by (simp only: decode_quad [OF b64url_val_char [OF sextet_bound [OF n]]
          b64url_val_char [OF mod64] b64url_val_char [OF mod64] b64url_val_char [OF mod64]
          "4.IH" recombine] x y z of_nat_unat_byte [OF refl])
qed

lemma url_safe_base64_inj: "url_safe_base64 a = url_safe_base64 b \<Longrightarrow> a = b"
  by (metis b64url_decode_encode option.inject url_safe_base64_eq)

subsection \<open>UTF-8\<close>

lemma unat_of_nat_byte: "n < 256 \<Longrightarrow> unat (of_nat n :: byte) = n"
  by (simp add: unat_of_nat)

lemma utf8_decode_char: "utf8_decode (utf8_char c @ bs) = map_option (Cons c) (utf8_decode bs)"
proof (cases "(of_char c :: nat) < 128")
  case True
  then show ?thesis
    by (simp add: utf8_char_def Let_def unat_of_nat_byte)
next
  case False
  define n where "n = (of_char c :: nat)"
  have n: "128 \<le> n" "n < 256" using False by (simp_all add: n_def)
  have hi: "192 + n div 64 < 256" "192 + n div 64 = 194 \<or> 192 + n div 64 = 195"
    using n by arith+
  have lo: "128 + n mod 64 < 256" "128 \<le> 128 + n mod 64" "128 + n mod 64 < 192"
    by simp_all
  have dec: "(192 + n div 64 - 192) * 64 + (128 + n mod 64 - 128) = n"
    by simp
  have c: "char_of n = c" by (simp add: n_def)
  have "utf8_char c = [of_nat (192 + n div 64), of_nat (128 + n mod 64)]"
    using False by (simp only: utf8_char_def n_def Let_def if_False)
  then show ?thesis
    using hi(2) by (simp only: append_Cons append_Nil utf8_decode.simps unat_of_nat_byte [OF hi(1)]
        unat_of_nat_byte [OF lo(1)] dec c list.case) (auto simp: lo)
qed

lemma utf8_decode_utf8: "utf8_decode (utf8 s) = Some s"
  by (induction s) (simp_all add: utf8_def utf8_decode_char)

subsection \<open>String literals\<close>

lemma hex_val_hex_char: "d < 16 \<Longrightarrow> hex_val (hex_char d) = Some d"
  by (simp add: hex_val_def hex_char_def Let_def)

lemma hex4_control:
  assumes "n < 32"
  shows "hex4 (CHR ''0'') (CHR ''0'') (hex_char (n div 16)) (hex_char (n mod 16)) = Some n"
proof -
  have a: "hex_val (hex_char (n div 16)) = Some (n div 16)"
    using assms by (intro hex_val_hex_char) simp
  have b: "hex_val (hex_char (n mod 16)) = Some (n mod 16)"
    by (intro hex_val_hex_char) simp
  have z: "hex_val (CHR ''0'') = Some 0"
    by (simp add: hex_val_def)
  show ?thesis
    by (simp add: hex4_def a b z)
qed

lemma parse_chars_escape:
  "parse_chars (json_escape c @ tail) = cons_result c (parse_chars tail)"
proof -
  consider (special) "c \<in> {dquote, backslash, CHR 0x08, CHR 0x0C, CHR 0x0A, CHR 0x0D, CHR 0x09}"
    | (control) "c \<notin> {dquote, backslash, CHR 0x08, CHR 0x0C, CHR 0x0A, CHR 0x0D, CHR 0x09}"
        "(of_char c :: nat) < 32"
    | (plain) "c \<notin> {dquote, backslash, CHR 0x08, CHR 0x0C, CHR 0x0A, CHR 0x0D, CHR 0x09}"
        "\<not> (of_char c :: nat) < 32"
    by blast
  then show ?thesis
  proof cases
    case special
    then show ?thesis
      by (auto simp: json_escape_def unescape_def dquote_def backslash_def)
  next
    case control
    have "char_of (of_char c :: nat) = c" by simp
    with control show ?thesis
      by (simp add: json_escape_def hex4_control dquote_def backslash_def)
  next
    case plain
    then show ?thesis
      by (simp add: json_escape_def)
  qed
qed

lemma parse_chars_quoted:
  "parse_chars (concat (map json_escape s) @ dquote # rest) = Some (s, rest)"
  by (induction s) (simp_all add: parse_chars_escape cons_result_def)

subsection \<open>Integer literals\<close>

lemma is_digit_digit_char: "d < 10 \<Longrightarrow> is_digit (digit_char d)"
  by (simp add: is_digit_def digit_char_def)

lemma of_char_digit_char: "d < 10 \<Longrightarrow> (of_char (digit_char d) :: nat) = 48 + d"
  by (simp add: digit_char_def)

lemma show_nat_digits: "list_all is_digit (show_nat n) \<and> show_nat n \<noteq> []"
proof (induction n rule: show_nat.induct)
  case (1 n)
  show ?case
  proof (cases "n < 10")
    case True
    then show ?thesis by (subst (1 2) show_nat.simps) (simp add: is_digit_digit_char)
  next
    case False
    with 1 show ?thesis by (subst (1 2) show_nat.simps) (simp add: is_digit_digit_char)
  qed
qed

lemma read_nat_snoc: "read_nat (ds @ [c]) = 10 * read_nat ds + (of_char c - 48)"
  by (simp add: read_nat_def)

lemma read_nat_show_nat: "read_nat (show_nat n) = n"
proof (induction n rule: show_nat.induct)
  case (1 n)
  show ?case
  proof (cases "n < 10")
    case True
    then show ?thesis
      by (subst show_nat.simps) (simp add: read_nat_def of_char_digit_char)
  next
    case False
    with 1 show ?thesis
      by (subst show_nat.simps) (simp add: read_nat_snoc of_char_digit_char)
  qed
qed

lemma show_nat_small: "n < 10 \<Longrightarrow> show_nat n = [digit_char n]"
  by (subst show_nat.simps) simp

lemma hd_show_nat: "0 < n \<Longrightarrow> hd (show_nat n) \<noteq> CHR ''0''"
proof (induction n rule: show_nat.induct)
  case (1 n)
  show ?case
  proof (cases "n < 10")
    case True
    with 1(2) show ?thesis
      by (simp add: show_nat_small char_eq_code of_char_digit_char del: of_char_eq_iff)
  next
    case False
    then have "0 < n div 10" by simp
    with 1(1) False have "hd (show_nat (n div 10)) \<noteq> CHR ''0''" by simp
    with False show ?thesis
      by (subst show_nat.simps) (simp add: show_nat_digits)
  qed
qed

lemma no_leading_zero: "\<not> (1 < length (show_nat n) \<and> hd (show_nat n) = CHR ''0'')"
proof (cases "n < 10")
  case True
  then show ?thesis by (simp add: show_nat_small)
next
  case False
  then show ?thesis using hd_show_nat [of n] by simp
qed

lemma takeWhile_digits:
  "list_all is_digit ds \<Longrightarrow> number_end rest \<Longrightarrow>
     takeWhile is_digit (ds @ rest) = ds \<and> dropWhile is_digit (ds @ rest) = rest"
  by (induction ds) (auto simp: number_end_def split: list.splits)

lemma hd_show_nat_not_minus: "hd (show_nat n) \<noteq> CHR ''-''"
proof -
  have "is_digit (hd (show_nat n))"
    using show_nat_digits [of n] by (cases "show_nat n") simp_all
  then show ?thesis by (auto simp: is_digit_def)
qed

lemma parse_number_show_int:
  assumes "number_end rest"
  shows "parse_number (show_int i @ rest) = Some (JNum i, rest)"
proof (cases "i < 0")
  case True
  have d: "list_all is_digit (show_nat (nat (- i)))" "show_nat (nat (- i)) \<noteq> []"
    using show_nat_digits by simp_all
  from True show ?thesis
    using takeWhile_digits [OF d(1) assms] assms no_leading_zero [of "nat (- i)"] d(2)
    by (auto simp: parse_number_def show_int_def Let_def read_nat_show_nat number_end_def
        split: list.splits)
next
  case False
  have d: "list_all is_digit (show_nat (nat i))" "show_nat (nat i) \<noteq> []"
    using show_nat_digits by simp_all
  from False show ?thesis
    using takeWhile_digits [OF d(1) assms] assms no_leading_zero [of "nat i"] d(2)
      hd_show_nat_not_minus [of "nat i"]
    by (auto simp: parse_number_def show_int_def Let_def read_nat_show_nat number_end_def
        split: list.splits)
qed

subsection \<open>Objects of strings and integers\<close>

declare parse_value.simps [simp del] parse_members.simps [simp del] parse_elements.simps [simp del]

lemma dquote_other: "dquote \<noteq> CHR ''{''" "dquote \<noteq> CHR ''[''"
  by (simp_all add: dquote_def)

lemma skip_ws_nonws: "\<not> is_ws c \<Longrightarrow> skip_ws (c # s) = c # s"
  by (simp add: skip_ws_def)

lemma dquote_not_ws: "\<not> is_ws dquote"
  by (simp add: is_ws_def dquote_def)

lemma show_int_first:
  "\<exists>c cs. show_int i = c # cs \<and> (is_digit c \<or> c = CHR ''-'')"
proof (cases "i < 0")
  case True
  then show ?thesis by (simp add: show_int_def)
next
  case False
  obtain c cs where s: "show_nat (nat i) = c # cs"
    using show_nat_digits [of "nat i"] by (cases "show_nat (nat i)") auto
  with show_nat_digits [of "nat i"] have "is_digit c" by simp
  with s False show ?thesis by (simp add: show_int_def)
qed

lemma parse_value_number:
  assumes "number_end rest"
  shows "parse_value (Suc n) (show_int i @ rest) = Some (JNum i, rest)"
proof -
  obtain c cs where s: "show_int i = c # cs" and c: "is_digit c \<or> c = CHR ''-''"
    using show_int_first by blast
  from c have nws: "\<not> is_ws c" by (auto simp: is_ws_def is_digit_def)
  from c have other: "c \<noteq> CHR ''{''" "c \<noteq> CHR ''[''" "c \<noteq> dquote" "c \<noteq> CHR ''t''"
    "c \<noteq> CHR ''f''" "c \<noteq> CHR ''n''"
    by (auto simp: is_digit_def dquote_def)
  have "parse_value (Suc n) (c # cs @ rest) = parse_number (c # cs @ rest)"
    by (simp add: parse_value.simps skip_ws_nonws [OF nws] other)
  then show ?thesis
    using parse_number_show_int [OF assms, of i] by (simp add: s)
qed

lemma parse_value_string:
  "parse_value (Suc n) (json_quote s @ rest) = Some (JStr s, rest)"
  by (simp add: parse_value.simps json_quote_def skip_ws_nonws [OF dquote_not_ws]
      parse_chars_quoted dquote_other)

lemma parse_value_atomic:
  assumes "atomic v" "number_end rest"
  shows "parse_value (Suc n) (ser v @ rest) = Some (v, rest)"
  using assms by (cases v) (simp_all add: parse_value_string parse_value_number)

lemma number_end_comma: "number_end (CHR '','' # s)" and number_end_brace: "number_end (CHR ''}'' # s)"
  by (simp_all add: number_end_def is_digit_def)

lemma parse_member_last:
  assumes "atomic (snd kv)"
  shows "parse_members (Suc (Suc n)) (member_text kv @ CHR ''}'' # rest) = Some ([kv], rest)"
proof -
  have v: "parse_value (Suc n) (ser (snd kv) @ CHR ''}'' # rest) = Some (snd kv, CHR ''}'' # rest)"
    by (rule parse_value_atomic [OF assms number_end_brace])
  have ws: "\<not> is_ws (CHR '':'')" "\<not> is_ws (CHR ''}'')" by (simp_all add: is_ws_def)
  show ?thesis
    by (simp add: parse_members.simps member_text_def json_quote_def
        skip_ws_nonws [OF dquote_not_ws] parse_chars_quoted skip_ws_nonws [OF ws(1)] skip_ws_nonws [OF ws(2)] strip_prefix_def v)
qed

lemma parse_member_more:
  assumes "atomic (snd kv)"
  shows "parse_members (Suc (Suc n)) (member_text kv @ CHR '','' # rest)
          = cons_result kv (parse_members (Suc n) rest)"
proof -
  have v: "parse_value (Suc n) (ser (snd kv) @ CHR '','' # rest) = Some (snd kv, CHR '','' # rest)"
    by (rule parse_value_atomic [OF assms number_end_comma])
  have ws: "\<not> is_ws (CHR '':'')" "\<not> is_ws (CHR '','')" by (simp_all add: is_ws_def)
  show ?thesis
    by (simp add: parse_members.simps member_text_def json_quote_def
        skip_ws_nonws [OF dquote_not_ws] parse_chars_quoted skip_ws_nonws [OF ws(1)] skip_ws_nonws [OF ws(2)] strip_prefix_def v)
qed

lemma parse_members_atomic:
  "ms \<noteq> [] \<Longrightarrow> list_all (\<lambda>kv. atomic (snd kv)) ms \<Longrightarrow> length ms < fuel \<Longrightarrow>
     parse_members fuel (join '','' (map member_text ms) @ CHR ''}'' # rest) = Some (ms, rest)"
proof (induction ms arbitrary: fuel)
  case Nil
  then show ?case by simp
next
  case (Cons kv ms)
  from Cons.prems(3) obtain n where fuel: "fuel = Suc (Suc n)" and n: "length ms \<le> n"
    by (cases fuel; cases "fuel - 1") auto
  show ?case
  proof (cases ms)
    case Nil
    with Cons.prems fuel show ?thesis by (simp add: parse_member_last)
  next
    case (Cons kv' ms')
    with Cons.IH [of "Suc n"] Cons.prems n
    have "parse_members (Suc n) (join '','' (map member_text ms) @ CHR ''}'' # rest) = Some (ms, rest)"
      by simp
    with Cons Cons.prems fuel show ?thesis
      by (simp add: parse_member_more cons_result_def)
  qed
qed

lemma atomic_defined: "atomic v \<Longrightarrow> v \<noteq> JUndefined"
  by (cases v) simp_all

lemma ser_object:
  "list_all (\<lambda>kv. atomic (snd kv)) ms \<Longrightarrow>
     ser (JObj ms) = CHR ''{'' # join '','' (map member_text ms) @ ''}''"
proof -
  assume a: "list_all (\<lambda>kv. atomic (snd kv)) ms"
  then have "filter (\<lambda>kv. snd kv \<noteq> JUndefined) ms = ms"
    by (induction ms) (simp_all add: atomic_defined)
  then show ?thesis
    by (simp add: member_text_def [abs_def])
qed

lemma member_text_first: "\<exists>t. member_text kv = dquote # t"
  by (simp add: member_text_def json_quote_def)

lemma join_first: "ms \<noteq> [] \<Longrightarrow> \<exists>t. join '','' (map member_text ms) = dquote # t"
proof (cases ms)
  case Nil
  assume "ms \<noteq> []"
  with Nil show ?thesis by simp
next
  case (Cons kv ms')
  obtain t where t: "member_text kv = dquote # t" using member_text_first by blast
  show ?thesis
    by (cases ms') (simp_all add: Cons t)
qed

lemma join_length: "list_all (\<lambda>x. x \<noteq> []) xs \<Longrightarrow> length xs \<le> length (join sep xs)"
proof (induction sep xs rule: join.induct)
  case (1 sep)
  show ?case by simp
next
  case (2 sep x)
  then show ?case by (cases x) simp_all
next
  case (3 sep x y ys)
  then show ?case by (cases x) simp_all
qed

lemma parse_value_object:
  assumes "ms \<noteq> []" "list_all (\<lambda>kv. atomic (snd kv)) ms" "length ms < n"
  shows "parse_value (Suc n) (ser (JObj ms) @ rest) = Some (make_object ms, rest)"
proof -
  obtain t where t: "join '','' (map member_text ms) = dquote # t"
    using join_first [OF assms(1)] by blast
  have ws: "\<not> is_ws (CHR ''{'')" by (simp add: is_ws_def)
  have m: "parse_members n (join '','' (map member_text ms) @ CHR ''}'' # rest) = Some (ms, rest)"
    by (rule parse_members_atomic [OF assms])
  have np: "strip_prefix ''}'' (dquote # t @ CHR ''}'' # rest) = None"
    by (simp add: strip_prefix_def dquote_def)
  show ?thesis
    unfolding ser_object [OF assms(2)] using m
    by (simp add: parse_value.simps skip_ws_nonws [OF ws] t
        skip_ws_nonws [OF dquote_not_ws] np del: ser.simps)
qed

lemma JSON_parse_object:
  assumes "ms \<noteq> []" "list_all (\<lambda>kv. atomic (snd kv)) ms"
  shows "JSON_parse (ser (JObj ms)) = Some (make_object ms)"
proof -
  have "list_all (\<lambda>x. x \<noteq> []) (map member_text ms)"
  proof (induction ms)
    case Nil
    show ?case by simp
  next
    case (Cons kv ms)
    obtain t where "member_text kv = dquote # t" using member_text_first by blast
    with Cons show ?case by simp
  qed
  from join_length [OF this, of "'',''"]
  have "length ms \<le> length (ser (JObj ms))"
    unfolding ser_object [OF assms(2)] by simp
  then have f: "length ms < 2 * length (ser (JObj ms)) + 1" by simp
  have "parse_value (Suc (2 * length (ser (JObj ms)) + 1)) (ser (JObj ms) @ [])
          = Some (make_object ms, [])"
    by (rule parse_value_object [OF assms f])
  then show ?thesis
    by (simp add: JSON_parse_def skip_ws_def del: ser.simps)
qed

lemma decode_segment_base64url:
  assumes "ms \<noteq> []" "list_all (\<lambda>kv. atomic (snd kv)) ms"
  shows "decode_segment (base64url ms) = Some (make_object ms)"
  by (simp add: decode_segment_def base64url_eq url_safe_base64_eq b64url_decode_encode
      utf8_decode_utf8 JSON_parse_object [OF assms] del: ser.simps)

lemma make_object_payload:
  "make_object (payload k r n e u) = JObj (payload k r n e u)"
  by (simp add: make_object_def payload_def is_index_def is_digit_def)

lemma make_object_header: "make_object header = JObj header"
  by (simp add: make_object_def header_def is_index_def is_digit_def)

lemma Decode_generateToken:
  "\<exists>tok. fst (generateToken cfg (JStr key) (JStr secret) (JNum role) w) = Inr tok
     \<and> Decode tok = Inr (JObj header, JObj (claims_at cfg (JStr key) (JNum role) w))"
proof -
  have h: "decode_segment (base64url header) = Some (JObj header)"
    using decode_segment_base64url [of header] by (simp add: make_object_header) (simp add: header_def)
  have p: "decode_segment (base64url (claims_at cfg (JStr key) (JNum role) w))
            = Some (JObj (claims_at cfg (JStr key) (JNum role) w))"
    using decode_segment_base64url [of "claims_at cfg (JStr key) (JNum role) w"]
    by (simp add: claims_at_def make_object_payload) (simp add: payload_def)
  from generateToken_segments [of cfg "JStr key" secret "JNum role" w]
  show ?thesis
    by (auto simp: Decode_def h p)
qed

section \<open>The claims of a token\<close>

lemma claims_lookup:
  "get_prop (JObj (claims_at cfg sdkKey role_arg w)) ''app_key'' = Some sdkKey"
  "get_prop (JObj (claims_at cfg sdkKey role_arg w)) ''role_type''
     = Some (if role_arg = JUndefined then JNum 1 else role_arg)"
  "get_prop (JObj (claims_at cfg sdkKey role_arg w)) ''iat'' = Some (JNum (clock w (reads w) div 1000))"
  "get_prop (JObj (claims_at cfg sdkKey role_arg w)) ''exp''
     = Some (JNum (clock w (reads w) div 1000 + TOKEN_EXPIRY cfg))"
  "get_prop (JObj (claims_at cfg sdkKey role_arg w)) ''user_id''
     = Some (JStr (''user_'' @ show_int (clock w (Suc (reads w)))))"
  "get_prop (JObj (claims_at cfg sdkKey role_arg w)) ''user_name''
     = Some (JStr (''user_'' @ show_int (clock w (Suc (reads w)))))"
  "get_prop (JObj (claims_at cfg sdkKey role_arg w)) ''enable_byop'' = Some (JNum 1)"
  by (simp_all add: claims_at_def payload_def)

text \<open>
  C1. For every key, secret, integer role and configured lifetime, the token that
  \<open>generateToken\<close> returns decodes to claims whose \<open>app_key\<close> is the key, whose
  \<open>role_type\<close> is the role as passed, and whose \<open>enable_byop\<close> is 1.
\<close>

theorem round_trip:
  "\<exists>tok hdr claims.
     fst (generateToken cfg (JStr key) (JStr secret) (JNum role) w) = Inr tok
     \<and> Decode tok = Inr (hdr, claims)
     \<and> get_prop claims ''app_key'' = Some (JStr key)
     \<and> get_prop claims ''role_type'' = Some (JNum role)
     \<and> get_prop claims ''enable_byop'' = Some (JNum 1)"
  using Decode_generateToken [of cfg key secret role w]
  by (auto simp: claims_lookup simp del: get_prop.simps)

theorem round_trip_witness:
  "\<exists>tok hdr claims.
     fst (generateToken sample_config (JStr ''key123'') (JStr ''secret456'') (JNum 2) sample_world)
       = Inr tok
     \<and> Decode tok = Inr (hdr, claims)
     \<and> get_prop claims ''app_key'' = Some (JStr ''key123'')
     \<and> get_prop claims ''role_type'' = Some (JNum 2)
     \<and> get_prop claims ''enable_byop'' = Some (JNum 1)"
  by (rule round_trip)

text \<open>
  C4. In every token the claims have \<open>exp = iat + lifetime\<close>, where the lifetime is
  \<open>TOKEN_EXPIRY\<close> of the configuration, 3600 in the configuration of the source, and
  is no argument of \<open>generateToken\<close>. The first part is about the claims object that is
  encoded into the second segment, for every key and role value; the second part reads the
  claims back with \<open>Decode\<close>.
\<close>

theorem expiry_invariant:
  "(\<exists>tok. fst (generateToken cfg sdkKey (JStr secret) role_arg w) = Inr tok
      \<and> split_on (CHR ''.'') tok ! 1 = base64url (claims_at cfg sdkKey role_arg w)
      \<and> map_of (claims_at cfg sdkKey role_arg w) ''iat'' = Some (JNum (clock w (reads w) div 1000))
      \<and> map_of (claims_at cfg sdkKey role_arg w) ''exp''
          = Some (JNum (clock w (reads w) div 1000 + TOKEN_EXPIRY cfg)))
   \<and> (\<exists>tok hdr claims iat.
        fst (generateToken cfg (JStr key) (JStr secret) (JNum role) w) = Inr tok
      \<and> Decode tok = Inr (hdr, claims)
      \<and> get_prop claims ''iat'' = Some (JNum iat)
      \<and> get_prop claims ''exp'' = Some (JNum (iat + TOKEN_EXPIRY cfg)))
   \<and> TOKEN_EXPIRY (CONFIG env_key env_secret) = 3600"
proof (intro conjI)
  show "\<exists>tok. fst (generateToken cfg sdkKey (JStr secret) role_arg w) = Inr tok
      \<and> split_on (CHR ''.'') tok ! 1 = base64url (claims_at cfg sdkKey role_arg w)
      \<and> map_of (claims_at cfg sdkKey role_arg w) ''iat'' = Some (JNum (clock w (reads w) div 1000))
      \<and> map_of (claims_at cfg sdkKey role_arg w) ''exp''
          = Some (JNum (clock w (reads w) div 1000 + TOKEN_EXPIRY cfg))"
    using generateToken_segments [of cfg sdkKey secret role_arg w]
    by (auto simp: claims_at_def payload_def)
  show "\<exists>tok hdr claims iat.
        fst (generateToken cfg (JStr key) (JStr secret) (JNum role) w) = Inr tok
      \<and> Decode tok = Inr (hdr, claims)
      \<and> get_prop claims ''iat'' = Some (JNum iat)
      \<and> get_prop claims ''exp'' = Some (JNum (iat + TOKEN_EXPIRY cfg))"
    using Decode_generateToken [of cfg key secret role w]
    by (auto simp: claims_lookup simp del: get_prop.simps)
  show "TOKEN_EXPIRY (CONFIG env_key env_secret) = 3600"
    by (simp add: CONFIG_def)
qed

theorem expiry_invariant_witness:
  "(\<exists>tok. fst (generateToken sample_config (JStr ''key123'') (JStr ''secret456'') (JNum 2)
               sample_world) = Inr tok
      \<and> split_on (CHR ''.'') tok ! 1
          = base64url (claims_at sample_config (JStr ''key123'') (JNum 2) sample_world)
      \<and> map_of (claims_at sample_config (JStr ''key123'') (JNum 2) sample_world) ''iat''
          = Some (JNum (clock sample_world (reads sample_world) div 1000))
      \<and> map_of (claims_at sample_config (JStr ''key123'') (JNum 2) sample_world) ''exp''
          = Some (JNum (clock sample_world (reads sample_world) div 1000
                         + TOKEN_EXPIRY sample_config)))
   \<and> (\<exists>tok hdr claims iat.
        fst (generateToken sample_config (JStr ''key123'') (JStr ''secret456'') (JNum 2)
               sample_world) = Inr tok
      \<and> Decode tok = Inr (hdr, claims)
      \<and> get_prop claims ''iat'' = Some (JNum iat)
      \<and> get_prop claims ''exp'' = Some (JNum (iat + TOKEN_EXPIRY sample_config)))
   \<and> TOKEN_EXPIRY (CONFIG (Some ''key123'') (Some ''secret456'')) = 3600"
  by (rule expiry_invariant)

text \<open>
  C9. In every token the \<open>user_name\<close> claim equals the \<open>user_id\<close> claim: both are the
  identifier made from the second clock reading.
\<close>

theorem user_name_is_user_id:
  "(\<exists>tok. fst (generateToken cfg sdkKey (JStr secret) role_arg w) = Inr tok
      \<and> split_on (CHR ''.'') tok ! 1 = base64url (claims_at cfg sdkKey role_arg w)
      \<and> map_of (claims_at cfg sdkKey role_arg w) ''user_name''
          = map_of (claims_at cfg sdkKey role_arg w) ''user_id''
      \<and> map_of (claims_at cfg sdkKey role_arg w) ''user_id''
          = Some (JStr (''user_'' @ show_int (clock w (Suc (reads w))))))
   \<and> (\<exists>tok hdr claims uid.
        fst (generateToken cfg (JStr key) (JStr secret) (JNum role) w) = Inr tok
      \<and> Decode tok = Inr (hdr, claims)
      \<and> get_prop claims ''user_id'' = Some (JStr uid)
      \<and> get_prop claims ''user_name'' = Some (JStr uid))"
proof (intro conjI)
  show "\<exists>tok. fst (generateToken cfg sdkKey (JStr secret) role_arg w) = Inr tok
      \<and> split_on (CHR ''.'') tok ! 1 = base64url (claims_at cfg sdkKey role_arg w)
      \<and> map_of (claims_at cfg sdkKey role_arg w) ''user_name''
          = map_of (claims_at cfg sdkKey role_arg w) ''user_id''
      \<and> map_of (claims_at cfg sdkKey role_arg w) ''user_id''
          = Some (JStr (''user_'' @ show_int (clock w (Suc (reads w)))))"
    using generateToken_segments [of cfg sdkKey secret role_arg w]
    by (auto simp: claims_at_def payload_def)
  show "\<exists>tok hdr claims uid.
        fst (generateToken cfg (JStr key) (JStr secret) (JNum role) w) = Inr tok
      \<and> Decode tok = Inr (hdr, claims)
      \<and> get_prop claims ''user_id'' = Some (JStr uid)
      \<and> get_prop claims ''user_name'' = Some (JStr uid)"
    using Decode_generateToken [of cfg key secret role w]
    by (auto simp: claims_lookup simp del: get_prop.simps)
qed

theorem user_name_is_user_id_witness:
  "(\<exists>tok. fst (generateToken sample_config (JStr ''key123'') (JStr ''secret456'') (JNum 2)
               sample_world) = Inr tok
      \<and> split_on (CHR ''.'') tok ! 1
          = base64url (claims_at sample_config (JStr ''key123'') (JNum 2) sample_world)
      \<and> map_of (claims_at sample_config (JStr ''key123'') (JNum 2) sample_world) ''user_name''
          = map_of (claims_at sample_config (JStr ''key123'') (JNum 2) sample_world) ''user_id''
      \<and> map_of (claims_at sample_config (JStr ''key123'') (JNum 2) sample_world) ''user_id''
          = Some (JStr (''user_'' @ show_int (clock sample_world (Suc (reads sample_world))))))
   \<and> (\<exists>tok hdr claims uid.
        fst (generateToken sample_config (JStr ''key123'') (JStr ''secret456'') (JNum 2)
               sample_world) = Inr tok
      \<and> Decode tok = Inr (hdr, claims)
      \<and> get_prop claims ''user_id'' = Some (JStr uid)
      \<and> get_prop claims ''user_name'' = Some (JStr uid))"
  by (rule user_name_is_user_id)

section \<open>The encoding scheme\<close>

lemma header_text:
  "ser (JObj header) =
     [CHR ''{'', dquote] @ ''alg'' @ [dquote] @ '':'' @ [dquote] @ ''HS256'' @ [dquote] @ '',''
       @ [dquote] @ ''typ'' @ [dquote] @ '':'' @ [dquote] @ ''JWT'' @ [dquote] @ ''}''"
  by (simp add: header_def json_quote_def json_escape_def dquote_def backslash_def)

lemma header_bytes:
  "utf8 (ser (JObj header)) =
     map of_nat
       [123, 34, 97, 108, 103, 34, 58, 34, 72, 83, 50, 53, 54, 34, 44, 34, 116, 121, 112, 34, 58,
        34, 74, 87, 84, 34, 125]"
  unfolding header_text by (simp add: utf8_def utf8_char_def dquote_def)

lemma header_segment:
  "url_safe_base64 (utf8 (ser (JObj header))) = ''eyJhbGciOiJIUzI1NiIsInR5cCI6IkpXVCJ9''"
  unfolding header_bytes url_safe_base64_eq
  by (simp add: b64url_char_def Let_def char_of_def bit_0)

lemma b64url_char_ascii: "(of_char (b64url_char i) :: nat) < 128"
  by (simp add: of_char_b64url_char) arith

lemma b64url_encode_ascii: "list_all (\<lambda>x. (of_char x :: nat) < 128) (b64url_encode bytes)"
  by (induction bytes rule: b64url_encode.induct) (simp_all add: Let_def b64url_char_ascii)

text \<open>
  C6. The three segments of a token are the URL-safe base64 texts (standard base64, \<open>+\<close>
  to \<open>-\<close>, \<open>/\<close> to \<open>_\<close>, padding stripped) of the UTF-8 bytes of the JSON text of the
  header, of the UTF-8 bytes of the JSON text of the claims, and of the HMAC-SHA256 bytes,
  keyed by the secret, of the text \<open>header.claims\<close>, which is ASCII.
\<close>

theorem encoding_scheme:
  "\<exists>tok h c.
     fst (generateToken cfg sdkKey (JStr secret) role_arg w) = Inr tok
     \<and> h = url_safe_base64 (utf8 (ser (JObj header)))
     \<and> c = url_safe_base64 (utf8 (ser (JObj (claims_at cfg sdkKey role_arg w))))
     \<and> split_on (CHR ''.'') tok =
          [h, c, url_safe_base64 (hmac_sha256 (utf8 secret) (utf8 (h @ ''.'' @ c)))]
     \<and> h = ''eyJhbGciOiJIUzI1NiIsInR5cCI6IkpXVCJ9''
     \<and> list_all (\<lambda>x. (of_char x :: nat) < 128) (h @ ''.'' @ c)
     \<and> JSON_stringify (JObj header) = Some (ser (JObj header))
     \<and> JSON_stringify (JObj (claims_at cfg sdkKey role_arg w))
         = Some (ser (JObj (claims_at cfg sdkKey role_arg w)))"
proof -
  have a: "list_all (\<lambda>x. (of_char x :: nat) < 128)
             (url_safe_base64 (utf8 (ser (JObj header))) @ ''.''
               @ url_safe_base64 (utf8 (ser (JObj (claims_at cfg sdkKey role_arg w)))))"
    by (simp add: url_safe_base64_eq b64url_encode_ascii del: ser.simps)
  from generateToken_segments [of cfg sdkKey secret role_arg w] a show ?thesis
    by (auto simp: base64url_eq signature_segment_def header_segment JSON_stringify_def
        simp del: ser.simps)
qed

theorem encoding_scheme_witness:
  "\<exists>tok h c.
     fst (generateToken sample_config (JStr ''key123'') (JStr ''secret456'') (JNum 2) sample_world)
       = Inr tok
     \<and> h = url_safe_base64 (utf8 (ser (JObj header)))
     \<and> c = url_safe_base64 (utf8 (ser (JObj (claims_at sample_config (JStr ''key123'') (JNum 2)
                sample_world))))
     \<and> split_on (CHR ''.'') tok =
          [h, c, url_safe_base64 (hmac_sha256 (utf8 ''secret456'') (utf8 (h @ ''.'' @ c)))]
     \<and> h = ''eyJhbGciOiJIUzI1NiIsInR5cCI6IkpXVCJ9''
     \<and> list_all (\<lambda>x. (of_char x :: nat) < 128) (h @ ''.'' @ c)
     \<and> JSON_stringify (JObj header) = Some (ser (JObj header))
     \<and> JSON_stringify (JObj (claims_at sample_config (JStr ''key123'') (JNum 2) sample_world))
         = Some (ser (JObj (claims_at sample_config (JStr ''key123'') (JNum 2) sample_world)))"
  by (rule encoding_scheme)

section \<open>Verifying a signature\<close>

lemma Verify_generateToken:
  "\<exists>tok. fst (generateToken cfg sdkKey (JStr secretA) role_arg w) = Inr tok
     \<and> Verify tok secretB =
         Inr (hmac_sha256 (utf8 secretB)
                (utf8 (base64url header @ ''.'' @ base64url (claims_at cfg sdkKey role_arg w)))
              = hmac_sha256 (utf8 secretA)
                (utf8 (base64url header @ ''.'' @ base64url (claims_at cfg sdkKey role_arg w))))"
  using generateToken_segments [of cfg sdkKey secretA role_arg w]
  by (auto simp: Verify_def signature_segment_def dest: url_safe_base64_inj)

lemma Verify_malformed:
  "(Verify token secret = Inl MalformedToken) = (length (split_on (CHR ''.'') token) \<noteq> 3)"
proof (cases "split_on (CHR ''.'') token")
  case Nil
  then show ?thesis by (simp add: Verify_def)
next
  case (Cons a as)
  note c1 = this
  show ?thesis
  proof (cases as)
    case Nil
    with c1 show ?thesis by (simp add: Verify_def)
  next
    case (Cons b bs)
    note c2 = this
    show ?thesis
    proof (cases bs)
      case Nil
      with c1 c2 show ?thesis by (simp add: Verify_def)
    next
      case (Cons c cs)
      with c1 c2 show ?thesis by (cases cs) (simp_all add: Verify_def)
    qed
  qed
qed

text \<open>
  C2, amended. A token verifies under the secret that signed it. Under another secret it
  verifies exactly when the two secrets give the same HMAC-SHA256 of the signing input, as
  they do whenever they have the same HMAC key block; otherwise the result is false.
  \<open>Verify\<close> fails with \<open>MalformedToken\<close> exactly when the token does not have three
  segments, and returns a boolean for every token that has three.
\<close>

theorem verify_correct:
  "(\<exists>tok. fst (generateToken cfg sdkKey (JStr secretA) role_arg w) = Inr tok
      \<and> Verify tok secretA = Inr True
      \<and> Verify tok secretB =
          Inr (hmac_sha256 (utf8 secretB)
                 (utf8 (base64url header @ ''.'' @ base64url (claims_at cfg sdkKey role_arg w)))
               = hmac_sha256 (utf8 secretA)
                 (utf8 (base64url header @ ''.'' @ base64url (claims_at cfg sdkKey role_arg w))))
      \<and> (hmac_key_block (utf8 secretB) = hmac_key_block (utf8 secretA)
           \<longrightarrow> Verify tok secretB = Inr True))
   \<and> (Verify token secret = Inl MalformedToken) = (length (split_on (CHR ''.'') token) \<noteq> 3)
   \<and> (length (split_on (CHR ''.'') token) = 3
        \<longrightarrow> Verify token secret = Inr True \<or> Verify token secret = Inr False)"
proof (intro conjI)
  from Verify_generateToken [of cfg sdkKey secretA role_arg w secretB]
    Verify_generateToken [of cfg sdkKey secretA role_arg w secretA]
  show "\<exists>tok. fst (generateToken cfg sdkKey (JStr secretA) role_arg w) = Inr tok
      \<and> Verify tok secretA = Inr True
      \<and> Verify tok secretB =
          Inr (hmac_sha256 (utf8 secretB)
                 (utf8 (base64url header @ ''.'' @ base64url (claims_at cfg sdkKey role_arg w)))
               = hmac_sha256 (utf8 secretA)
                 (utf8 (base64url header @ ''.'' @ base64url (claims_at cfg sdkKey role_arg w))))
      \<and> (hmac_key_block (utf8 secretB) = hmac_key_block (utf8 secretA)
           \<longrightarrow> Verify tok secretB = Inr True)"
    by (auto simp: hmac_sha256_def)
  show "(Verify token secret = Inl MalformedToken) = (length (split_on (CHR ''.'') token) \<noteq> 3)"
    by (rule Verify_malformed)
  show "length (split_on (CHR ''.'') token) = 3
        \<longrightarrow> Verify token secret = Inr True \<or> Verify token secret = Inr False"
  proof
    assume l: "length (split_on (CHR ''.'') token) = 3"
    show "Verify token secret = Inr True \<or> Verify token secret = Inr False"
    proof (cases "Verify token secret")
      case (Inl e)
      then have "Verify token secret = Inl MalformedToken" by (cases e) simp
      with Verify_malformed [of token secret] l show ?thesis by simp
    next
      case (Inr b)
      then show ?thesis by (cases b) simp_all
    qed
  qed
qed

lemma key_block_nul: "hmac_key_block (utf8 [CHR ''s'', CHR 0x00]) = hmac_key_block (utf8 ''s'')"
  by (simp add: hmac_key_block_def utf8_def utf8_char_def Let_def numeral_eq_Suc)

theorem verify_correct_witness:
  "(\<exists>tok. fst (generateToken sample_config (JStr ''key123'') (JStr ''s'') (JNum 2) sample_world)
             = Inr tok
      \<and> Verify tok ''s'' = Inr True
      \<and> Verify tok [CHR ''s'', CHR 0x00] = Inr True)
   \<and> Verify ''onlyonesegment'' ''x'' = Inl MalformedToken
   \<and> (Verify ''a.b.c'' ''x'' = Inr True \<or> Verify ''a.b.c'' ''x'' = Inr False)"
proof -
  have a: "length (split_on (CHR ''.'') ''onlyonesegment'') \<noteq> 3"
    by simp
  have b: "length (split_on (CHR ''.'') ''a.b.c'') = 3"
    by simp
  from verify_correct [where cfg = sample_config and sdkKey = "JStr ''key123''"
      and secretA = "''s''" and role_arg = "JNum 2" and w = sample_world
      and secretB = "[CHR ''s'', CHR 0x00]" and token = "''onlyonesegment''" and secret = "''x''"]
    verify_correct [where cfg = sample_config and sdkKey = "JStr ''key123''"
      and secretA = "''s''" and role_arg = "JNum 2" and w = sample_world
      and secretB = "[CHR ''s'', CHR 0x00]" and token = "''a.b.c''" and secret = "''x''"]
    key_block_nul a b
  show ?thesis by blast
qed

text \<open>
  C2, as the claim states it, fails: HMAC fills the key with zero bytes up to the block
  size, so the secrets \<open>s\<close> and \<open>s\<close> followed by a NUL character are distinct and sign
  alike.
\<close>

theorem distinct_secrets_counterexample:
  "''s'' \<noteq> [CHR ''s'', CHR 0x00]
   \<and> Verify (projr (fst (generateToken sample_config (JStr ''key123'') (JStr ''s'') (JNum 2)
                sample_world))) [CHR ''s'', CHR 0x00] = Inr True"
  using Verify_generateToken [of sample_config "JStr ''key123''" "''s''" "JNum 2" sample_world
      "[CHR ''s'', CHR 0x00]"]
  by (auto simp: hmac_sha256_def key_block_nul)

section \<open>The fuel of the parser\<close>

text \<open>
  Every parser returns a rest that is no longer than its input, and a nested call is made on
  a proper part of the input. So from \<open>2 * length s + 2\<close> units on, more fuel does not
  change the result of \<open>parse_value\<close>: \<open>JSON_parse\<close> never fails for lack of fuel.
\<close>

lemma skip_ws_length: "length (skip_ws s) \<le> length s"
  by (simp add: skip_ws_def length_dropWhile_le)

lemma skip_ws_Cons_length: "skip_ws s = c # cs \<Longrightarrow> length cs < length s"
  using skip_ws_length [of s] by simp

lemma strip_prefix_length: "strip_prefix p s = Some r \<Longrightarrow> length r \<le> length s"
  by (auto simp: strip_prefix_def split: if_splits)

lemma cons_result_Some:
  "cons_result x res = Some (ys, r) \<Longrightarrow> \<exists>xs. res = Some (xs, r) \<and> ys = x # xs"
  by (auto simp: cons_result_def split: option.splits)

lemma four_case:
  "(case l of h1 # h2 # h3 # h4 # rest \<Rightarrow> f h1 h2 h3 h4 rest | _ \<Rightarrow> None) = Some y \<Longrightarrow>
     \<exists>h1 h2 h3 h4 rest. l = h1 # h2 # h3 # h4 # rest \<and> f h1 h2 h3 h4 rest = Some y"
  by (auto split: list.splits)

lemma parse_chars_length: "parse_chars s = Some (x, r) \<Longrightarrow> length r < length s"
proof (induction s arbitrary: x r rule: length_induct)
  case (1 s)
  then have IH: "\<And>t y q. length t < length s \<Longrightarrow> parse_chars t = Some (y, q) \<Longrightarrow> length q < length t"
    by blast
  show ?case
  proof (cases s)
    case Nil
    with 1(2) show ?thesis by simp
  next
    case (Cons c cs)
    show ?thesis
    proof (cases "c = dquote")
      case True
      with 1(2) Cons show ?thesis by simp
    next
      case nq: False
      show ?thesis
      proof (cases "c = backslash")
        case nb: False
        from 1(2) Cons nq nb have "cons_result c (parse_chars cs) = Some (x, r)"
          by (simp split: if_splits)
        then obtain xs where "parse_chars cs = Some (xs, r)"
          by (blast dest: cons_result_Some)
        from IH [OF _ this] Cons show ?thesis by simp
      next
        case True
        show ?thesis
        proof (cases cs)
          case Nil
          with 1(2) Cons nq True show ?thesis by simp
        next
          case cs: (Cons e cs')
          show ?thesis
          proof (cases "e = CHR ''u''")
            case nu: False
            from 1(2) Cons nq True cs nu obtain y where
              "cons_result y (parse_chars cs') = Some (x, r)"
              by (auto split: option.splits)
            then obtain xs where "parse_chars cs' = Some (xs, r)"
              by (blast dest: cons_result_Some)
            from IH [OF _ this] Cons cs show ?thesis by simp
          next
            case u: True
            from 1(2) Cons nq True cs u
            have "(case cs' of
                    h1 # h2 # h3 # h4 # rest \<Rightarrow>
                      (case hex4 h1 h2 h3 h4 of
                         None \<Rightarrow> None
                       | Some n \<Rightarrow> if n < 256 then cons_result (char_of n) (parse_chars rest) else None)
                  | _ \<Rightarrow> None) = Some (x, r)"
              by simp
            from four_case [OF this] obtain h1 h2 h3 h4 rest where
              cs': "cs' = h1 # h2 # h3 # h4 # rest" and
              "(case hex4 h1 h2 h3 h4 of
                         None \<Rightarrow> None
                       | Some n \<Rightarrow> if n < 256 then cons_result (char_of n) (parse_chars rest) else None)
                = Some (x, r)"
              by blast
            then obtain n :: nat where "cons_result (char_of n) (parse_chars rest) = Some (x, r)"
              by (auto split: option.splits if_splits)
            then obtain xs where "parse_chars rest = Some (xs, r)"
              by (blast dest: cons_result_Some)
            from IH [OF _ this] Cons cs cs' show ?thesis by simp
          qed
        qed
      qed
    qed
  qed
qed

lemma parse_number_length: "parse_number s = Some (v, r) \<Longrightarrow> length r \<le> length s"
proof -
  assume a: "parse_number s = Some (v, r)"
  have d: "length (dropWhile is_digit t) \<le> length t" for t
    by (rule length_dropWhile_le)
  from a have "r = dropWhile is_digit s \<or> r = dropWhile is_digit (tl s)"
    by (auto simp: parse_number_def Let_def split: if_splits)
  then show ?thesis
    using d [of s] d [of "tl s"] by auto
qed

lemma parse_length:
  "(\<forall>s v r. parse_value n s = Some (v, r) \<longrightarrow> length r \<le> length s)
   \<and> (\<forall>s vs r. parse_elements n s = Some (vs, r) \<longrightarrow> length r \<le> length s)
   \<and> (\<forall>s ms r. parse_members n s = Some (ms, r) \<longrightarrow> length r \<le> length s)"
proof (induction n)
  case 0
  show ?case by (simp add: parse_value.simps parse_elements.simps parse_members.simps)
next
  case (Suc n)
  have v: "length r \<le> length s" if "parse_value (Suc n) s = Some (v, r)" for s v r
  proof (cases "skip_ws s")
    case Nil
    with that show ?thesis by (simp add: parse_value.simps)
  next
    case (Cons c cs)
    have cs: "length cs < length s" by (rule skip_ws_Cons_length [OF Cons])
    have sk: "length (skip_ws cs) \<le> length cs" by (rule skip_ws_length)
    from that Cons consider
        (obj0) "strip_prefix ''}'' (skip_ws cs) = Some r"
      | (obj) ms where "parse_members n cs = Some (ms, r)"
      | (arr0) "strip_prefix '']'' (skip_ws cs) = Some r"
      | (arr) vs where "parse_elements n cs = Some (vs, r)"
      | (str) x where "parse_chars cs = Some (x, r)"
      | (lit) p where "strip_prefix p cs = Some r"
      | (num) "parse_number (c # cs) = Some (v, r)"
      by (simp add: parse_value.simps split: if_splits option.splits prod.splits) blast+
    then show ?thesis
    proof cases
      case obj0
      from strip_prefix_length [OF this] sk cs show ?thesis by simp
    next
      case obj
      with Suc cs show ?thesis by (meson le_trans less_imp_le)
    next
      case arr0
      from strip_prefix_length [OF this] sk cs show ?thesis by simp
    next
      case arr
      with Suc cs show ?thesis by (meson le_trans less_imp_le)
    next
      case str
      from parse_chars_length [OF this] cs show ?thesis by simp
    next
      case lit
      from strip_prefix_length [OF this] cs show ?thesis by simp
    next
      case num
      from parse_number_length [OF this] cs show ?thesis by simp
    qed
  qed
  have e: "length r \<le> length s" if "parse_elements (Suc n) s = Some (vs, r)" for s vs r
  proof -
    from that obtain v r0 c r' where pv: "parse_value n s = Some (v, r0)"
      and sk: "skip_ws r0 = c # r'"
      and alt: "(\<exists>xs. parse_elements n r' = Some (xs, r)) \<or> r = r'"
      by (auto simp: parse_elements.simps split: option.splits list.splits if_splits
          dest!: cons_result_Some)
    from pv Suc have 1: "length r0 \<le> length s" by blast
    from skip_ws_Cons_length [OF sk] have 2: "length r' < length r0" .
    from alt Suc have "length r \<le> length r'" by auto
    with 1 2 show ?thesis by simp
  qed
  have m: "length r \<le> length s" if "parse_members (Suc n) s = Some (ms, r)" for s ms r
  proof -
    from that obtain q cs k r1 r2 v r3 c r4 where sk0: "skip_ws s = q # cs"
      and pc: "parse_chars cs = Some (k, r1)"
      and sp: "strip_prefix '':'' (skip_ws r1) = Some r2"
      and pv: "parse_value n r2 = Some (v, r3)"
      and sk: "skip_ws r3 = c # r4"
      and alt: "(\<exists>xs. parse_members n r4 = Some (xs, r)) \<or> r = r4"
      by (auto simp: parse_members.simps split: option.splits list.splits if_splits
          dest!: cons_result_Some)
    from skip_ws_Cons_length [OF sk0] have 0: "length cs < length s" .
    from parse_chars_length [OF pc] have 1: "length r1 < length cs" .
    from strip_prefix_length [OF sp] skip_ws_length [of r1] have 2: "length r2 \<le> length r1" by simp
    from pv Suc have 3: "length r3 \<le> length r2" by blast
    from skip_ws_Cons_length [OF sk] have 4: "length r4 < length r3" .
    from alt Suc have "length r \<le> length r4" by auto
    with 0 1 2 3 4 show ?thesis by simp
  qed
  from v e m show ?case by blast
qed

lemma parse_value_length: "parse_value n s = Some (v, r) \<Longrightarrow> length r \<le> length s"
  using parse_length [of n] by blast

lemma fuel_step:
  "(\<forall>s. 2 * length s + 2 \<le> n \<longrightarrow> parse_value (Suc n) s = parse_value n s)
   \<and> (\<forall>s. 2 * length s + 3 \<le> n \<longrightarrow> parse_elements (Suc n) s = parse_elements n s)
   \<and> (\<forall>s. 2 * length s + 3 \<le> n \<longrightarrow> parse_members (Suc n) s = parse_members n s)"
proof (induction n)
  case 0
  show ?case by simp
next
  case (Suc n)
  then have IHv: "\<And>s. 2 * length s + 2 \<le> n \<Longrightarrow> parse_value (Suc n) s = parse_value n s"
    and IHe: "\<And>s. 2 * length s + 3 \<le> n \<Longrightarrow> parse_elements (Suc n) s = parse_elements n s"
    and IHm: "\<And>s. 2 * length s + 3 \<le> n \<Longrightarrow> parse_members (Suc n) s = parse_members n s"
    by blast+
  have v: "parse_value (Suc (Suc n)) s = parse_value (Suc n) s" if b: "2 * length s + 2 \<le> Suc n" for s
  proof (cases "skip_ws s")
    case Nil
    then show ?thesis
      by (simp add: parse_value.simps(2) [of "Suc n" s] parse_value.simps(2) [of n s])
  next
    case (Cons c cs)
    from skip_ws_Cons_length [OF Cons] b have "2 * length cs + 3 \<le> n" by simp
    then have em: "parse_elements (Suc n) cs = parse_elements n cs"
      "parse_members (Suc n) cs = parse_members n cs"
      by (simp_all add: IHe IHm)
    show ?thesis
      by (simp add: parse_value.simps(2) [of "Suc n" s] parse_value.simps(2) [of n s] Cons em
          cong: option.case_cong)
  qed
  have e: "parse_elements (Suc (Suc n)) s = parse_elements (Suc n) s"
    if b: "2 * length s + 3 \<le> Suc n" for s
  proof -
    from b have pv: "parse_value (Suc n) s = parse_value n s" by (simp add: IHv)
    show ?thesis
    proof (cases "parse_value n s")
      case None
      then show ?thesis
        by (simp add: parse_elements.simps(2) [of "Suc n" s] parse_elements.simps(2) [of n s] pv)
    next
      case (Some a)
      obtain x r0 where a: "a = (x, r0)" by (cases a)
      from Some a have r0: "length r0 \<le> length s" by (simp add: parse_value_length)
      show ?thesis
      proof (cases "skip_ws r0")
        case Nil
        with Some a show ?thesis
          by (simp add: parse_elements.simps(2) [of "Suc n" s] parse_elements.simps(2) [of n s] pv)
      next
        case (Cons c r')
        from skip_ws_Cons_length [OF Cons] r0 b have "2 * length r' + 3 \<le> n" by simp
        then have "parse_elements (Suc n) r' = parse_elements n r'" by (simp add: IHe)
        with Some a Cons show ?thesis
          by (simp add: parse_elements.simps(2) [of "Suc n" s] parse_elements.simps(2) [of n s] pv)
      qed
    qed
  qed
  have m: "parse_members (Suc (Suc n)) s = parse_members (Suc n) s"
    if b: "2 * length s + 3 \<le> Suc n" for s
  proof (cases "skip_ws s")
    case Nil
    then show ?thesis
      by (simp add: parse_members.simps(2) [of "Suc n" s] parse_members.simps(2) [of n s])
  next
    case sk0: (Cons q cs)
    from skip_ws_Cons_length [OF sk0] have cs: "length cs < length s" .
    show ?thesis
    proof (cases "parse_chars cs")
      case None
      with sk0 show ?thesis
        by (simp add: parse_members.simps(2) [of "Suc n" s] parse_members.simps(2) [of n s])
    next
      case (Some a)
      obtain k r1 where a: "a = (k, r1)" by (cases a)
      from Some a have r1: "length r1 < length cs" by (simp add: parse_chars_length)
      show ?thesis
      proof (cases "strip_prefix '':'' (skip_ws r1)")
        case None
        with sk0 Some a show ?thesis
          by (simp add: parse_members.simps(2) [of "Suc n" s] parse_members.simps(2) [of n s])
      next
        case sp: (Some r2)
        from strip_prefix_length [OF sp] skip_ws_length [of r1]
        have r2: "length r2 \<le> length r1" by simp
        with r1 cs b have "2 * length r2 + 2 \<le> n" by simp
        then have pv: "parse_value (Suc n) r2 = parse_value n r2" by (simp add: IHv)
        show ?thesis
        proof (cases "parse_value n r2")
          case None
          with sk0 Some a sp show ?thesis
            by (simp add: parse_members.simps(2) [of "Suc n" s] parse_members.simps(2) [of n s] pv)
        next
          case pv2: (Some b2)
          obtain x r3 where b2: "b2 = (x, r3)" by (cases b2)
          from pv2 b2 have r3: "length r3 \<le> length r2" by (simp add: parse_value_length)
          show ?thesis
          proof (cases "skip_ws r3")
            case Nil
            with sk0 Some a sp pv2 b2 show ?thesis
              by (simp add: parse_members.simps(2) [of "Suc n" s]
                  parse_members.simps(2) [of n s] pv)
          next
            case (Cons c r4)
            from skip_ws_Cons_length [OF Cons] r3 r2 r1 cs b have "2 * length r4 + 3 \<le> n" by simp
            then have "parse_members (Suc n) r4 = parse_members n r4" by (simp add: IHm)
            with sk0 Some a sp pv2 b2 Cons show ?thesis
              by (simp add: parse_members.simps(2) [of "Suc n" s]
                  parse_members.simps(2) [of n s] pv)
          qed
        qed
      qed
    qed
  qed
  from v e m show ?case by blast
qed

lemma fuel_enough:
  assumes "2 * length s + 2 \<le> n"
  shows "parse_value n s = parse_value (2 * length s + 2) s"
proof -
  have "parse_value (2 * length s + 2 + k) s = parse_value (2 * length s + 2) s" for k
  proof (induction k)
    case 0
    show ?case by simp
  next
    case (Suc k)
    have "parse_value (Suc (2 * length s + 2 + k)) s = parse_value (2 * length s + 2 + k) s"
      using fuel_step [of "2 * length s + 2 + k"] by simp
    with Suc show ?case by simp
  qed
  moreover from assms obtain k where "n = 2 * length s + 2 + k"
    using le_Suc_ex by blast
  ultimately show ?thesis by blast
qed

lemma JSON_parse_fuel:
  assumes "2 * length s + 2 \<le> n"
  shows "JSON_parse s =
           (case parse_value n s of
              None \<Rightarrow> None
            | Some (v, rest) \<Rightarrow> if skip_ws rest = [] then Some v else None)"
  by (simp add: JSON_parse_def fuel_enough [OF assms])

end
